theory Spec2Isabelle
  imports Main "HOL-Library.Word"
begin

unbundle bit_operations_syntax

section \<open>Bytes, return codes and faults\<close>

type_synonym byte = "8 word"

text \<open>
  An access outside the object a pointer belongs to is undefined behaviour in C.  The
  model makes each such access an explicit outcome: \<open>RawOverflow\<close> for a write or read
  past the 8192-byte array \<open>raw\<close> of \<open>ngx_http_pta_check_crc\<close>, \<open>PlainOutOfBounds\<close>
  for an access past the decrypted buffer \<open>out\<close>, \<open>UriOutOfBounds\<close> for a read of
  \<open>r->uri.data\<close> at or beyond \<open>r->uri.len\<close>, \<open>NullArray\<close> for a use of
  \<open>encrypt_data_array\<close> while it is \<open>NULL\<close>.
\<close>

datatype fault = RawOverflow | PlainOutOfBounds | UriOutOfBounds | NullArray

datatype ret = Ret int | Fault fault

definition NGX_OK :: int where "NGX_OK = 0"
definition NGX_DECLINED :: int where "NGX_DECLINED = - 5"
definition NGX_HTTP_BAD_REQUEST :: int where "NGX_HTTP_BAD_REQUEST = 400"
definition NGX_HTTP_INTERNAL_SERVER_ERROR :: int where "NGX_HTTP_INTERNAL_SERVER_ERROR = 500"
definition NGX_HTTP_PTA_FALLBACK :: int where "NGX_HTTP_PTA_FALLBACK = 21"
definition NGX_IIJPTA_AUTH_QS :: nat where "NGX_IIJPTA_AUTH_QS = 2"
definition NGX_IIJPTA_AUTH_COOKIE :: nat where "NGX_IIJPTA_AUTH_COOKIE = 4"

section \<open>Hex codec\<close>

definition ngx_http_pta_c2i :: "byte \<Rightarrow> byte" where
  "ngx_http_pta_c2i c =
     (if 0x30 \<le> c \<and> c \<le> 0x39 then c - 0x30
      else if 0x61 \<le> c \<and> c \<le> 0x66 then c - (0x61 - 10)
      else if 0x41 \<le> c \<and> c \<le> 0x46 then c - (0x41 - 10)
      else 0)"

text \<open>The loop of \<open>ngx_http_pta_hex2bin\<close>: \<open>len / 2\<close> output bytes, a trailing odd
  character is not read.\<close>

fun hex2bin_loop :: "byte list \<Rightarrow> byte list" where
  "hex2bin_loop (a # b # hex) =
     (push_bit 4 (ngx_http_pta_c2i a) OR ngx_http_pta_c2i b) # hex2bin_loop hex"
| "hex2bin_loop hex = []"

text \<open>\<open>ngx_http_pta_hex2bin\<close> returns 1 on an empty string (here \<open>None\<close>) and 0 with
  the bytes written to \<open>bin\<close> otherwise.\<close>

definition ngx_http_pta_hex2bin :: "byte list \<Rightarrow> byte list option" where
  "ngx_http_pta_hex2bin hex = (if length hex = 0 then None else Some (hex2bin_loop hex))"

section \<open>CRC-32 and byte order\<close>

text \<open>
  Modelled from the spec: \<open>ngx_crc32_long\<close> and its table \<open>ngx_crc32_table256\<close> belong
  to the nginx core and are not part of this module; the spec calls the function CRC-32.
  The table entry is the reflected CRC-32 (polynomial \<open>0xEDB88320\<close>) of the index, the
  function starts from \<open>0xffffffff\<close> and inverts the result.  No theorem below depends
  on the value the function computes.
\<close>

definition crc32_bit :: "32 word \<Rightarrow> 32 word" where
  "crc32_bit c = (if c AND 1 = 1 then drop_bit 1 c XOR 0xEDB88320 else drop_bit 1 c)"

definition ngx_crc32_table256 :: "32 word \<Rightarrow> 32 word" where
  "ngx_crc32_table256 i =
     crc32_bit (crc32_bit (crc32_bit (crc32_bit
       (crc32_bit (crc32_bit (crc32_bit (crc32_bit i)))))))"

definition crc32_update :: "32 word \<Rightarrow> byte \<Rightarrow> 32 word" where
  "crc32_update c b = ngx_crc32_table256 ((c XOR ucast b) AND 0xff) XOR drop_bit 8 c"

definition ngx_crc32_long :: "byte list \<Rightarrow> 32 word" where
  "ngx_crc32_long p = foldl crc32_update 0xffffffff p XOR 0xffffffff"

text \<open>\<open>be32toh (*(uint32_t *) p)\<close>: the four bytes at \<open>p\<close> read as a big-endian
  number, whatever the byte order of the host.\<close>

definition be32toh :: "byte list \<Rightarrow> 32 word" where
  "be32toh bs =
     push_bit 24 (ucast (bs ! 0)) OR push_bit 16 (ucast (bs ! 1))
       OR push_bit 8 (ucast (bs ! 2)) OR ucast (bs ! 3)"

text \<open>The big-endian bytes of a 32-bit value (what a token issuer stores in front of
  the payload).\<close>

definition htobe32 :: "32 word \<Rightarrow> byte list" where
  "htobe32 w = [ucast (drop_bit 24 w), ucast (drop_bit 16 w), ucast (drop_bit 8 w), ucast w]"

text \<open>
  A \<open>time_t\<close> (64 bits) is kept as the eight bytes it occupies in memory, so that
  \<open>memcpy (raw, &deadline, 8)\<close> copies these bytes and \<open>be64toh (deadline)\<close> is their
  big-endian reading on every host.
\<close>

definition be64toh :: "byte list \<Rightarrow> 64 word" where
  "be64toh bs = foldl (\<lambda>acc b. push_bit 8 acc OR ucast b) 0 (take 8 bs)"

definition htobe64 :: "64 word \<Rightarrow> byte list" where
  "htobe64 w = map (\<lambda>i. ucast (drop_bit (8 * (7 - i)) w)) [0 ..< 8]"

section \<open>Configuration, request and request state\<close>

record ngx_http_pta_srv_conf_t =
  key_1st :: "byte list"
  iv_1st :: "byte list"
  key_2nd :: "byte list"
  iv_2nd :: "byte list"

record ngx_http_pta_loc_conf_t =
  pta_onoff :: bool
  pta_auth_method :: nat

text \<open>
  What the module reads of \<open>ngx_http_request_t\<close>: \<open>args_pta\<close> is the outcome of
  \<open>ngx_http_arg (r, "pta", 3, &value)\<close> (nginx core), \<open>None\<close> when it does not return
  \<open>NGX_OK\<close>; \<open>cookies\<close> are the values of the Cookie headers in the order of the
  request; \<open>uri\<close> is \<open>r->uri\<close>, \<open>uri.len\<close> bytes.  \<open>r->uri.data\<close> points into a
  larger buffer, and the module reads it without looking at \<open>uri.len\<close>:
  \<open>uri_before\<close> and \<open>uri_after\<close> are the bytes of that buffer in front of the path and
  behind it (for a path taken from the request line as it is, the method and a space
  in front, and behind it \<open>?\<close> and the query string, or the space and the protocol
  version).  An access outside these bytes is outside the buffer.
\<close>

record ngx_http_request_t =
  args_pta :: "byte list option"
  cookies :: "byte list list"
  uri_before :: "byte list"
  uri :: "byte list"
  uri_after :: "byte list"
  internal :: bool

text \<open>
  \<open>url\<close> is the pointer \<open>&out[12]\<close>: the bytes of the decrypted buffer from offset 12 to
  the end of the allocation.  \<open>url ! i\<close> is inside the buffer exactly when
  \<open>i < length url\<close>.
\<close>

record ngx_http_pta_data_t =
  crc :: "32 word"
  deadline :: "byte list"
  url :: "byte list"
  padding_val :: byte

datatype log_msg =
    TokenInvalid1 | TokenInvalid2 | TokenInvalid3 | TokenInvalid4
  | AuthTypeInvalid nat
  | EncryptStringSizeInvalid
  | EncryptString "byte list" nat
  | DecryptFailedNext nat
  | DecryptFailed
  | RequestExpired
  | CheckingNext nat
  | UrlInvalid
  | WildcardTooShort
  | WildcardRightMismatch
  | Successful

text \<open>\<open>ngx_http_pta_info_t\<close>; \<open>err_log\<close> is not a field of the C structure, it collects
  in order what the functions write with \<open>ngx_log_error\<close> to \<open>r->connection->log\<close>.\<close>

record ngx_http_pta_info_t =
  encrypt_string :: "byte list"
  encrypt_data :: "byte list"
  encrypt_data_len :: nat
  decrypt_data :: ngx_http_pta_data_t
  encrypt_data_array :: "byte list list option"
  encrypt_data_array_idx :: "16 word"
  need_fallback_cookie :: bool
  auth_type :: nat
  err_log :: "log_msg list"

definition ngx_log_error :: "log_msg \<Rightarrow> ngx_http_pta_info_t \<Rightarrow> ngx_http_pta_info_t" where
  "ngx_log_error m pta = pta\<lparr>err_log := err_log pta @ [m]\<rparr>"

text \<open>\<open>ngx_memzero (&pta, sizeof (pta))\<close>.\<close>

definition pta_zero :: ngx_http_pta_info_t where
  "pta_zero =
     \<lparr> encrypt_string = [], encrypt_data = [], encrypt_data_len = 0,
       decrypt_data = \<lparr> crc = 0, deadline = replicate 8 0, url = [], padding_val = 0 \<rparr>,
       encrypt_data_array = None, encrypt_data_array_idx = 0,
       need_fallback_cookie = False, auth_type = 0, err_log = [] \<rparr>"

section \<open>Cookie header parser\<close>

text \<open>
  \<open>ngx_tolower\<close>, \<open>ngx_strncasecmp\<close> and \<open>ngx_strncmp\<close> (the C \<open>strncmp\<close>) are nginx
  core; they compare at most \<open>n\<close> bytes and stop at a NUL.  A string is the list of its
  bytes and is followed by a NUL (nginx terminates header values, the name is a C
  literal), which is what \<open>byte_at\<close> reads at the end of the list.
\<close>

definition ngx_tolower :: "byte \<Rightarrow> byte" where
  "ngx_tolower c = (if 0x41 \<le> c \<and> c \<le> 0x5a then c OR 0x20 else c)"

definition byte_at :: "byte list \<Rightarrow> byte" where
  "byte_at s = (case s of [] \<Rightarrow> 0 | c # _ \<Rightarrow> c)"

fun ngx_strncasecmp :: "byte list \<Rightarrow> byte list \<Rightarrow> nat \<Rightarrow> int" where
  "ngx_strncasecmp s1 s2 0 = 0"
| "ngx_strncasecmp s1 s2 (Suc n) =
     (let c1 = ngx_tolower (byte_at s1); c2 = ngx_tolower (byte_at s2) in
      if c1 = c2 then (if c1 = 0 then 0 else ngx_strncasecmp (tl s1) (tl s2) n)
      else uint c1 - uint c2)"

fun ngx_strncmp :: "byte list \<Rightarrow> byte list \<Rightarrow> nat \<Rightarrow> int" where
  "ngx_strncmp s1 s2 0 = 0"
| "ngx_strncmp s1 s2 (Suc n) =
     (let c1 = byte_at s1; c2 = byte_at s2 in
      if c1 = c2 then (if c1 = 0 then 0 else ngx_strncmp (tl s1) (tl s2) n)
      else uint c1 - uint c2)"

text \<open>The label \<open>skip\<close>: past the next \<open>;\<close> and the spaces after it.\<close>

definition skip_cookie :: "byte list \<Rightarrow> byte list" where
  "skip_cookie s = dropWhile (\<lambda>c. c = 0x20) (drop 1 (dropWhile (\<lambda>c. c \<noteq> 0x3b) s))"

text \<open>
  The loop \<open>while (start < end)\<close> over one header value; \<open>s\<close> is the part of the value
  from \<open>start\<close> to \<open>end\<close>.  After a value is pushed the source continues with \<open>start\<close>
  at the first byte of that value.
\<close>

lemma length_tl_dropWhile_drop:
  assumes "s1 = dropWhile P (drop n s)" "s1 \<noteq> []"
  shows "length (tl s1) < length s"
proof -
  have "length s1 \<le> length (drop n s)"
    unfolding assms(1) by (rule length_dropWhile_le)
  moreover have "length (drop n s) \<le> length s" by simp
  moreover have "0 < length s1" using assms(2) by simp
  moreover have "length (tl s1) = length s1 - 1" by simp
  ultimately show ?thesis by arith
qed

lemma length_skip_cookie_le: "length (skip_cookie s) \<le> length s"
proof -
  have "length (skip_cookie s) \<le> length (drop 1 (dropWhile (\<lambda>c. c \<noteq> 0x3b) s))"
    unfolding skip_cookie_def by (rule length_dropWhile_le)
  also have "\<dots> \<le> length (dropWhile (\<lambda>c. c \<noteq> 0x3b) s)" by simp
  also have "\<dots> \<le> length s" by (rule length_dropWhile_le)
  finally show ?thesis .
qed

lemma length_skip_cookie_less:
  assumes "s \<noteq> []"
  shows "length (skip_cookie s) < length s"
proof -
  have pos: "0 < length s" using assms by simp
  have "length (dropWhile (\<lambda>c. c \<noteq> 0x3b) s) - 1 < length s"
    using length_dropWhile_le[of "\<lambda>c. c \<noteq> 0x3b" s] pos by arith
  then have "length (drop 1 (dropWhile (\<lambda>c. c \<noteq> 0x3b) s)) < length s"
    by (simp only: length_drop)
  moreover have "length (skip_cookie s) \<le> length (drop 1 (dropWhile (\<lambda>c. c \<noteq> 0x3b) s))"
    unfolding skip_cookie_def by (rule length_dropWhile_le)
  ultimately show ?thesis by arith
qed

function parse_cookie_value :: "byte list \<Rightarrow> byte list \<Rightarrow> byte list list" where
  "parse_cookie_value name s =
     (if s = [] then []
      else if ngx_strncasecmp s name (length name) \<noteq> 0
      then parse_cookie_value name (skip_cookie s)
      else let s1 = dropWhile (\<lambda>c. c = 0x20) (drop (length name) s) in
        if s1 = [] then []
        else if hd s1 \<noteq> 0x3d then parse_cookie_value name (skip_cookie (tl s1))
        else let s2 = dropWhile (\<lambda>c. c = 0x20) (tl s1) in
          takeWhile (\<lambda>c. c \<noteq> 0x3b) s2 # parse_cookie_value name s2)"
  by pat_completeness auto
termination
proof (relation "measure (\<lambda>(name, s). length s)")
  show "wf (measure (\<lambda>(name, s). length s))" by simp
next
  fix name s :: "byte list"
  assume "s \<noteq> []"
  then show "((name, skip_cookie s), (name, s)) \<in> measure (\<lambda>(name, s). length s)"
    using length_skip_cookie_less[of s] by simp
next
  fix name s s1 :: "byte list"
  assume "s1 = dropWhile (\<lambda>c. c = 0x20) (drop (length name) s)" "s1 \<noteq> []"
  then have "length (tl s1) < length s" by (rule length_tl_dropWhile_drop)
  with length_skip_cookie_le[of "tl s1"]
  show "((name, skip_cookie (tl s1)), (name, s)) \<in> measure (\<lambda>(name, s). length s)"
    by simp
next
  fix name s s1 s2 :: "byte list"
  assume s1: "s1 = dropWhile (\<lambda>c. c = 0x20) (drop (length name) s)" "s1 \<noteq> []"
    and s2: "s2 = dropWhile (\<lambda>c. c = 0x20) (tl s1)"
  from s1 have "length (tl s1) < length s" by (rule length_tl_dropWhile_drop)
  moreover have "length s2 \<le> length (tl s1)" unfolding s2 by (rule length_dropWhile_le)
  ultimately show "((name, s2), (name, s)) \<in> measure (\<lambda>(name, s). length s)"
    by simp
qed

declare parse_cookie_value.simps [simp del]

text \<open>\<open>ngx_http_pta_parse_cookie_header\<close>: the values pushed to the array, over all
  Cookie headers in order.\<close>

definition ngx_http_pta_parse_cookie_header :: "byte list list \<Rightarrow> byte list \<Rightarrow> byte list list" where
  "ngx_http_pta_parse_cookie_header hs name =
     concat (map (\<lambda>h. if length name > length h then [] else parse_cookie_value name h) hs)"

definition QUERY_PARAM :: "byte list" where
  "QUERY_PARAM = [0x70, 0x74, 0x61]"

section \<open>Building the candidate\<close>

definition ngx_http_pta_set_encrypt_data_array ::
  "ngx_http_request_t \<Rightarrow> ngx_http_pta_info_t \<Rightarrow> int \<times> ngx_http_pta_info_t" where
  "ngx_http_pta_set_encrypt_data_array r pta =
     (let arr = ngx_http_pta_parse_cookie_header (cookies r) QUERY_PARAM;
          pta1 = pta\<lparr>encrypt_data_array := Some arr\<rparr> in
      if length arr = 0 then (NGX_HTTP_BAD_REQUEST, ngx_log_error TokenInvalid3 pta1)
      else (NGX_OK, pta1))"

text \<open>Lines 430 to 460 of \<open>ngx_http_pta_build_info\<close>, common to both auth types.\<close>

definition build_info_decode :: "ngx_http_pta_info_t \<Rightarrow> int \<times> ngx_http_pta_info_t" where
  "build_info_decode pta =
     (if length (encrypt_string pta) mod 2 \<noteq> 0
      then (NGX_HTTP_BAD_REQUEST, ngx_log_error TokenInvalid2 pta)
      else (case ngx_http_pta_hex2bin (encrypt_string pta) of
              None \<Rightarrow> (NGX_HTTP_BAD_REQUEST,
                         ngx_log_error EncryptStringSizeInvalid (pta\<lparr>encrypt_data := []\<rparr>))
            | Some bin \<Rightarrow>
                (0, ngx_log_error (EncryptString (encrypt_string pta) (auth_type pta))
                      (pta\<lparr>encrypt_data := bin,
                           encrypt_data_len := length (encrypt_string pta) div 2\<rparr>))))"

definition ngx_http_pta_build_info ::
  "ngx_http_request_t \<Rightarrow> ngx_http_pta_info_t \<Rightarrow> int \<times> ngx_http_pta_info_t" where
  "ngx_http_pta_build_info r pta =
     (if auth_type pta = NGX_IIJPTA_AUTH_QS then
        (let pta1 = pta\<lparr>encrypt_data_array := None\<rparr> in
         case args_pta r of
           None \<Rightarrow>
             if need_fallback_cookie pta1 then (NGX_HTTP_PTA_FALLBACK, pta1)
             else (NGX_HTTP_BAD_REQUEST, ngx_log_error TokenInvalid1 pta1)
         | Some v \<Rightarrow> build_info_decode (pta1\<lparr>encrypt_string := v\<rparr>))
      else if auth_type pta = NGX_IIJPTA_AUTH_COOKIE then
        (case (if encrypt_data_array pta = None
               then ngx_http_pta_set_encrypt_data_array r pta else (NGX_OK, pta)) of
           (ret, pta1) \<Rightarrow>
             if ret \<noteq> NGX_OK then (ret, pta1)
             else (case encrypt_data_array pta1 of
                     None \<Rightarrow> (NGX_HTTP_INTERNAL_SERVER_ERROR, pta1)
                   | Some arr \<Rightarrow>
                       if unat (encrypt_data_array_idx pta1) < length arr
                       then build_info_decode
                              (pta1\<lparr>encrypt_string := arr ! unat (encrypt_data_array_idx pta1)\<rparr>)
                       else (NGX_HTTP_BAD_REQUEST, ngx_log_error TokenInvalid4 pta1)))
      else (NGX_HTTP_INTERNAL_SERVER_ERROR, ngx_log_error (AuthTypeInvalid (auth_type pta)) pta))"

definition ngx_http_pta_init_auth_type ::
  "ngx_http_pta_loc_conf_t \<Rightarrow> ngx_http_pta_info_t \<Rightarrow> ngx_http_pta_info_t" where
  "ngx_http_pta_init_auth_type loc pta =
     (if pta_auth_method loc = NGX_IIJPTA_AUTH_QS then pta\<lparr>auth_type := NGX_IIJPTA_AUTH_QS\<rparr>
      else if pta_auth_method loc = NGX_IIJPTA_AUTH_COOKIE
      then pta\<lparr>auth_type := NGX_IIJPTA_AUTH_COOKIE\<rparr>
      else if pta_auth_method loc = NGX_IIJPTA_AUTH_QS + NGX_IIJPTA_AUTH_COOKIE
      then pta\<lparr>need_fallback_cookie := True, auth_type := NGX_IIJPTA_AUTH_QS\<rparr>
      else pta\<lparr>auth_type := NGX_IIJPTA_AUTH_QS\<rparr>)"

section \<open>Integrity check\<close>

text \<open>\<open>memcpy (dst + off, src, length src)\<close> into an array \<open>dst\<close>.\<close>

definition memcpy :: "byte list \<Rightarrow> nat \<Rightarrow> byte list \<Rightarrow> fault + byte list" where
  "memcpy dst off src =
     (if off + length src \<le> length dst
      then Inr (take off dst @ src @ drop (off + length src) dst)
      else Inl RawOverflow)"

text \<open>\<open>uint8_t raw[8192]\<close>; the array is not initialised by the source and every byte
  that is read later has been written before.\<close>

definition raw_array :: "byte list" where
  "raw_array = replicate 8192 0"

text \<open>\<open>url_len\<close> is a \<open>size_t\<close>: the subtraction wraps modulo \<open>2 ^ 64\<close>.\<close>

definition url_len_of :: "ngx_http_pta_info_t \<Rightarrow> nat" where
  "url_len_of pta =
     (encrypt_data_len pta + 2 ^ 64 - 4 - 8 - unat (padding_val (decrypt_data pta))) mod 2 ^ 64"

definition ngx_http_pta_check_crc :: "ngx_http_pta_info_t \<Rightarrow> ret" where
  "ngx_http_pta_check_crc pta =
     (let d = decrypt_data pta in
      if padding_val d < 1 \<or> 16 < padding_val d then Ret 1
      else let url_len = url_len_of pta in
        if url_len > 8192 then Ret 1
        else (case memcpy raw_array 0 (deadline d) of
                Inl f \<Rightarrow> Fault f
              | Inr raw1 \<Rightarrow>
                  if length (url d) < url_len then Fault PlainOutOfBounds
                  else (case memcpy raw1 8 (take url_len (url d)) of
                          Inl f \<Rightarrow> Fault f
                        | Inr raw2 \<Rightarrow>
                            if ngx_crc32_long (take (8 + url_len) raw2) \<noteq> crc d
                            then Ret 1 else Ret NGX_OK)))"

text \<open>Lines 571 to 574 of \<open>ngx_http_pta_decrypt\<close>: the fields read from the decrypted
  buffer \<open>out\<close>, with \<open>len\<close> the value of \<open>encrypt_data_len\<close>.\<close>

definition set_decrypt_data :: "byte list \<Rightarrow> nat \<Rightarrow> ngx_http_pta_data_t" where
  "set_decrypt_data out len =
     \<lparr> crc = be32toh (take 4 out),
       deadline = take 8 (drop 4 out),
       url = drop 12 out,
       padding_val = out ! (len - 1) \<rparr>"

text \<open>The request state once a buffer \<open>out\<close> of \<open>encrypt_data_len\<close> bytes has been
  decrypted and its fields read.\<close>

definition plain_pta :: "ngx_http_pta_info_t \<Rightarrow> byte list \<Rightarrow> ngx_http_pta_info_t" where
  "plain_pta pta out =
     pta\<lparr>encrypt_data_len := length out, decrypt_data := set_decrypt_data out (length out)\<rparr>"

section \<open>Decryption with both key pairs\<close>

text \<open>
  The OpenSSL calls are outside the module.  A cipher \<open>D key iv data\<close> stands for
  \<open>EVP_CIPHER_CTX_new\<close>, \<open>EVP_DecryptInit_ex\<close> with AES-128-CBC,
  \<open>EVP_CIPHER_CTX_set_padding (ctx, 0)\<close>, \<open>EVP_DecryptUpdate\<close> and
  \<open>EVP_DecryptFinal_ex\<close>: \<open>None\<close> if one of them fails, else the bytes written.  With
  padding disabled the last call fails unless the input is a whole number of 16-byte
  blocks (spec 4.3).  \<open>out\<close> is the zeroed buffer of \<open>encrypt_data_len\<close> bytes from
  \<open>ngx_pcalloc\<close>, overwritten from its start.
\<close>

type_synonym cipher = "byte list \<Rightarrow> byte list \<Rightarrow> byte list \<Rightarrow> byte list option"

definition EVP_decrypt :: "cipher \<Rightarrow> byte list \<Rightarrow> byte list \<Rightarrow> byte list \<Rightarrow> byte list option" where
  "EVP_decrypt D key iv data =
     (if length data mod 16 \<noteq> 0 then None
      else (case D key iv data of
              None \<Rightarrow> None
            | Some p \<Rightarrow> Some (take (length data) p @ replicate (length data - length p) 0)))"

text \<open>
  One pass of the loop \<open>for (idx = 0; idx < 2; idx++)\<close>: \<open>Continue\<close> goes to the next
  \<open>idx\<close>, \<open>Decrypted\<close> is \<open>return 0\<close>, \<open>GotoFail\<close> is \<open>goto fail\<close>.  The key and IV
  strings have passed \<open>ngx_http_pta_check_keyiv\<close> (32 characters) or are unset (empty),
  so the 16-byte arrays \<open>key\<close> and \<open>iv\<close> hold what \<open>ngx_http_pta_hex2bin\<close> writes.
\<close>

datatype key_pass =
    Continue ngx_http_pta_info_t
  | Decrypted ngx_http_pta_info_t
  | GotoFail ngx_http_pta_info_t
  | KeyFault fault ngx_http_pta_info_t

definition decrypt_key_pass ::
  "cipher \<Rightarrow> ngx_http_pta_srv_conf_t \<Rightarrow> ngx_http_pta_info_t \<Rightarrow> nat \<Rightarrow> key_pass" where
  "decrypt_key_pass D srv pta idx =
     (case ngx_http_pta_hex2bin (if idx = 0 then key_1st srv else key_2nd srv) of
        None \<Rightarrow> Continue pta
      | Some key \<Rightarrow>
          (case ngx_http_pta_hex2bin (if idx = 0 then iv_1st srv else iv_2nd srv) of
             None \<Rightarrow> Continue pta
           | Some iv \<Rightarrow>
               (case EVP_decrypt D key iv (take (encrypt_data_len pta) (encrypt_data pta)) of
                  None \<Rightarrow> GotoFail pta
                | Some out \<Rightarrow>
                    if length out < 12 \<or> encrypt_data_len pta = 0
                    then KeyFault PlainOutOfBounds pta
                    else (let pta1 = pta\<lparr>decrypt_data :=
                                            set_decrypt_data out (encrypt_data_len pta)\<rparr> in
                          case ngx_http_pta_check_crc pta1 of
                            Fault f \<Rightarrow> KeyFault f pta1
                          | Ret c \<Rightarrow> if c = 0 then Decrypted pta1 else Continue pta1))))"

function decrypt_key_loop ::
  "cipher \<Rightarrow> ngx_http_pta_srv_conf_t \<Rightarrow> ngx_http_pta_info_t \<Rightarrow> nat \<Rightarrow> key_pass" where
  "decrypt_key_loop D srv pta idx =
     (if idx < 2
      then (case decrypt_key_pass D srv pta idx of
              Continue pta1 \<Rightarrow> decrypt_key_loop D srv pta1 (idx + 1)
            | Decrypted pta1 \<Rightarrow> Decrypted pta1
            | GotoFail pta1 \<Rightarrow> GotoFail pta1
            | KeyFault f pta1 \<Rightarrow> KeyFault f pta1)
      else Continue pta)"
  by pat_completeness auto
termination
  by (relation "measure (\<lambda>(D, srv, pta, idx). 2 - idx)") auto

declare decrypt_key_loop.simps [simp del]

text \<open>\<open>encrypt_data_array->nelts\<close>.\<close>

definition nelts :: "ngx_http_pta_info_t \<Rightarrow> nat option" where
  "nelts pta = map_option length (encrypt_data_array pta)"

text \<open>
  A pass through a function body that has a backward \<open>goto\<close>: it returns, or it jumps
  back to the label with the state it has reached.
\<close>

datatype jump = Return ret ngx_http_pta_info_t | Goto ngx_http_pta_info_t

text \<open>Lines 585 to 611 of \<open>ngx_http_pta_decrypt\<close>, reached when the loop over the two
  key pairs ends without \<open>return\<close> or \<open>goto fail\<close>; \<open>Goto\<close> is \<open>goto again\<close>.\<close>

definition decrypt_exhausted :: "ngx_http_pta_info_t \<Rightarrow> jump" where
  "decrypt_exhausted pta =
     (if auth_type pta = NGX_IIJPTA_AUTH_COOKIE
      then (let pta1 = pta\<lparr>encrypt_data_array_idx := encrypt_data_array_idx pta + 1\<rparr> in
            case nelts pta1 of
              None \<Rightarrow> Return (Fault NullArray) pta1
            | Some n \<Rightarrow>
                if unat (encrypt_data_array_idx pta1) < n
                then Goto (ngx_log_error
                             (DecryptFailedNext (unat (encrypt_data_array_idx pta1))) pta1)
                else Return (Ret 403) (ngx_log_error DecryptFailed pta1))
      else Return (Ret 403) (ngx_log_error DecryptFailed pta))"

text \<open>One pass of \<open>ngx_http_pta_decrypt\<close> from its label \<open>again\<close>; \<open>Goto\<close> is
  \<open>goto again\<close>.  Allocations are taken to succeed.\<close>

definition decrypt_again ::
  "cipher \<Rightarrow> ngx_http_pta_srv_conf_t \<Rightarrow> ngx_http_request_t \<Rightarrow> ngx_http_pta_info_t \<Rightarrow> jump" where
  "decrypt_again D srv r pta =
     (case ngx_http_pta_build_info r pta of
        (ret, pta1) \<Rightarrow>
          if ret = NGX_HTTP_PTA_FALLBACK
          then Goto (pta1\<lparr>need_fallback_cookie := False, auth_type := NGX_IIJPTA_AUTH_COOKIE\<rparr>)
          else if ret \<noteq> 0 then Return (Ret ret) pta1
          else (case decrypt_key_loop D srv pta1 0 of
                  Decrypted pta2 \<Rightarrow> Return (Ret 0) pta2
                | GotoFail pta2 \<Rightarrow> Return (Ret 403) (ngx_log_error DecryptFailed pta2)
                | KeyFault f pta2 \<Rightarrow> Return (Fault f) pta2
                | Continue pta2 \<Rightarrow> decrypt_exhausted pta2))"

text \<open>
  \<open>ngx_http_pta_decrypt\<close>.  \<open>encrypt_data_array_idx\<close> is a \<open>uint16_t\<close> and wraps, so
  the jumps back to \<open>again\<close> need not end: the function is partial and \<open>None\<close> means
  that it does not return.
\<close>

partial_function (option) ngx_http_pta_decrypt ::
  "cipher \<Rightarrow> ngx_http_pta_srv_conf_t \<Rightarrow> ngx_http_request_t \<Rightarrow> ngx_http_pta_info_t
     \<Rightarrow> (ret \<times> ngx_http_pta_info_t) option" where
  "ngx_http_pta_decrypt D srv r pta =
     (case decrypt_again D srv r pta of
        Return x pta1 \<Rightarrow> Some (x, pta1)
      | Goto pta1 \<Rightarrow> ngx_http_pta_decrypt D srv r pta1)"

section \<open>Deadline check\<close>

text \<open>\<open>time_t\<close> is a signed 64-bit integer; \<open>now\<close> is the value of \<open>ngx_time ()\<close>.\<close>

definition ngx_http_pta_check_deadline :: "64 word \<Rightarrow> ngx_http_pta_info_t \<Rightarrow> int" where
  "ngx_http_pta_check_deadline now pta =
     (let deadline = be64toh (deadline (decrypt_data pta)) in
      if sint now > sint deadline then 1 else 0)"

section \<open>URL matcher\<close>

text \<open>The loop \<open>while (*(beg + len) != padding_val) len++\<close>, with \<open>beg\<close> an offset into
  \<open>url\<close>; \<open>None\<close> when it leaves the decrypted buffer.\<close>

function wildcard_len :: "byte list \<Rightarrow> byte \<Rightarrow> nat \<Rightarrow> nat \<Rightarrow> nat option" where
  "wildcard_len u pad beg len =
     (if length u \<le> beg + len then None
      else if u ! (beg + len) \<noteq> pad then wildcard_len u pad beg (len + 1)
      else Some len)"
  by pat_completeness auto
termination
  by (relation "measure (\<lambda>(u, pad, beg, len). length u - (beg + len))") auto

declare wildcard_len.simps [simp del]

text \<open>\<open>r->uri.data[idx]\<close>, read with no test of \<open>idx\<close> against \<open>r->uri.len\<close>: a byte
  of the path, or of what lies behind it in the buffer; \<open>None\<close> outside the buffer.\<close>

definition uri_data :: "ngx_http_request_t \<Rightarrow> nat \<Rightarrow> byte option" where
  "uri_data r idx =
     (if idx < length (uri r) + length (uri_after r) then Some ((uri r @ uri_after r) ! idx)
      else None)"

text \<open>\<open>r->uri.len - idx\<close> is a \<open>size_t\<close> subtraction and wraps when \<open>idx\<close> is beyond
  the path.  \<open>r->uri.data + r->uri.len - len\<close> points \<open>len\<close> bytes in front of the end of
  the path, which is in front of the path itself when \<open>len\<close> is larger than
  \<open>r->uri.len\<close>.  The result carries the messages logged.\<close>

definition ngx_http_pta_check_wildcard_url ::
  "ngx_http_request_t \<Rightarrow> ngx_http_pta_info_t \<Rightarrow> nat \<Rightarrow> nat \<Rightarrow> ret \<times> log_msg list" where
  "ngx_http_pta_check_wildcard_url r pta wdx idx =
     (let d = decrypt_data pta; beg = wdx + 1 in
      case wildcard_len (url d) (padding_val d) beg 0 of
        None \<Rightarrow> (Fault PlainOutOfBounds, [])
      | Some len \<Rightarrow>
          if len = 0 then (Ret 0, [])
          else if (length (uri r) + 2 ^ 64 - idx) mod 2 ^ 64 < len
          then (Ret 1, [WildcardTooShort])
          else if length (uri_before r) + length (uri r) < len then (Fault UriOutOfBounds, [])
          else if ngx_strncmp
                    (drop (length (uri_before r) + length (uri r) - len) (uri_before r @ uri r))
                    (drop beg (url d)) len = 0
          then (Ret 0, [])
          else (Ret 1, [WildcardRightMismatch]))"

text \<open>The loop of \<open>ngx_http_pta_check_url\<close>; \<open>ast\<close> is the flag set by \<open>\*\<close>.\<close>

function check_url_loop ::
  "ngx_http_request_t \<Rightarrow> ngx_http_pta_info_t \<Rightarrow> bool \<Rightarrow> nat \<Rightarrow> nat \<Rightarrow> ret \<times> log_msg list" where
  "check_url_loop r pta ast idx wdx =
     (let u = url (decrypt_data pta); pad = padding_val (decrypt_data pta) in
      if length u \<le> wdx then (Fault PlainOutOfBounds, [])
      else if u ! wdx = pad
      then (if idx \<noteq> length (uri r) then (Ret 1, []) else (Ret 0, []))
      else if u ! wdx = 0x5c \<and> length u \<le> wdx + 1 then (Fault PlainOutOfBounds, [])
      else (let esc = (u ! wdx = 0x5c \<and> u ! (wdx + 1) = 0x2a);
                wdx1 = (if esc then wdx + 1 else wdx);
                ast1 = (ast \<or> esc) in
            if \<not> ast1 \<and> u ! wdx1 = 0x2a then ngx_http_pta_check_wildcard_url r pta wdx1 idx
            else (case uri_data r idx of
                    None \<Rightarrow> (Fault UriOutOfBounds, [])
                  | Some b \<Rightarrow>
                      if b \<noteq> u ! wdx1 then (Ret 1, [])
                      else check_url_loop r pta ast1 (idx + 1) (wdx1 + 1))))"
  by pat_completeness auto
termination
  by (relation "measure (\<lambda>(r, pta, ast, idx, wdx). length (url (decrypt_data pta)) - wdx)") auto

declare check_url_loop.simps [simp del]

definition ngx_http_pta_check_url ::
  "ngx_http_request_t \<Rightarrow> ngx_http_pta_info_t \<Rightarrow> ret \<times> log_msg list" where
  "ngx_http_pta_check_url r pta =
     (if padding_val (decrypt_data pta) < 1 \<or> 16 < padding_val (decrypt_data pta)
      then (Ret 1, [])
      else check_url_loop r pta False 0 0)"

section \<open>Handler\<close>

text \<open>\<open>pta.encrypt_data_array_idx++\<close> and the test against \<open>nelts\<close>, as the handler
  has them after a failed deadline or URL check in cookie mode: \<open>goto more\<close> when a
  candidate is left, else the status \<open>code\<close>.\<close>

definition next_candidate :: "int \<Rightarrow> ngx_http_pta_info_t \<Rightarrow> jump" where
  "next_candidate code pta =
     (if auth_type pta = NGX_IIJPTA_AUTH_COOKIE
      then (let pta1 = pta\<lparr>encrypt_data_array_idx := encrypt_data_array_idx pta + 1\<rparr> in
            case nelts pta1 of
              None \<Rightarrow> Return (Fault NullArray) pta1
            | Some n \<Rightarrow>
                if unat (encrypt_data_array_idx pta1) < n
                then Goto (ngx_log_error (CheckingNext (unat (encrypt_data_array_idx pta1))) pta1)
                else Return (Ret code) pta1)
      else Return (Ret code) pta)"

text \<open>
  The handler after \<open>ngx_http_pta_decrypt\<close> has returned \<open>ret\<close>; \<open>Goto\<close> is
  \<open>goto more\<close>.  On success the source also removes the \<open>pta\<close> argument from the
  forwarded query string (\<open>ngx_http_pta_delete_arg\<close>), which does not take part in the
  decision and is left out.
\<close>

definition handler_checks ::
  "64 word \<Rightarrow> ngx_http_request_t \<Rightarrow> ret \<Rightarrow> ngx_http_pta_info_t \<Rightarrow> jump" where
  "handler_checks now r ret pta =
     (case ret of
        Fault f \<Rightarrow> Return (Fault f) pta
      | Ret c \<Rightarrow>
          if c \<noteq> 0 then Return (Ret c) pta
          else if ngx_http_pta_check_deadline now pta \<noteq> 0
          then next_candidate 410 (ngx_log_error RequestExpired pta)
          else (case ngx_http_pta_check_url r pta of
                  (Fault f, msgs) \<Rightarrow> Return (Fault f) (pta\<lparr>err_log := err_log pta @ msgs\<rparr>)
                | (Ret u, msgs) \<Rightarrow>
                    if u \<noteq> 0
                    then next_candidate 403
                           (ngx_log_error UrlInvalid (pta\<lparr>err_log := err_log pta @ msgs\<rparr>))
                    else Return (Ret NGX_DECLINED)
                           (ngx_log_error Successful (pta\<lparr>err_log := err_log pta @ msgs\<rparr>))))"

text \<open>The handler from its label \<open>more\<close>.\<close>

partial_function (option) handler_more ::
  "cipher \<Rightarrow> 64 word \<Rightarrow> ngx_http_pta_srv_conf_t \<Rightarrow> ngx_http_request_t \<Rightarrow> ngx_http_pta_info_t
     \<Rightarrow> (ret \<times> ngx_http_pta_info_t) option" where
  "handler_more D now srv r pta =
     (case ngx_http_pta_decrypt D srv r pta of
        None \<Rightarrow> None
      | Some (ret, pta1) \<Rightarrow>
          (case handler_checks now r ret pta1 of
             Return x pta2 \<Rightarrow> Some (x, pta2)
           | Goto pta2 \<Rightarrow> handler_more D now srv r pta2))"

text \<open>\<open>srv\<close> and \<open>loc\<close> are the module configurations of the request, \<open>None\<close> for a
  \<open>NULL\<close> pointer.\<close>

definition ngx_http_pta_handler ::
  "cipher \<Rightarrow> 64 word \<Rightarrow> ngx_http_pta_srv_conf_t option \<Rightarrow> ngx_http_pta_loc_conf_t option
     \<Rightarrow> ngx_http_request_t \<Rightarrow> (ret \<times> ngx_http_pta_info_t) option" where
  "ngx_http_pta_handler D now srv loc r =
     (case srv of
        None \<Rightarrow> Some (Ret NGX_DECLINED, pta_zero)
      | Some srv' \<Rightarrow>
          (case loc of
             None \<Rightarrow> Some (Ret NGX_DECLINED, pta_zero)
           | Some loc' \<Rightarrow>
               if \<not> pta_onoff loc' then Some (Ret NGX_DECLINED, pta_zero)
               else if internal r then Some (Ret NGX_DECLINED, pta_zero)
               else handler_more D now srv' r (ngx_http_pta_init_auth_type loc' pta_zero)))"

section \<open>The URL matcher on lists\<close>

text \<open>
  The scan of \<open>ngx_http_pta_check_url\<close> seen from the pattern (the bytes of \<open>url\<close> in
  front of the first byte equal to \<open>padding_val\<close>) and the part of the path that is not
  matched yet: \<open>\*\<close> stands for \<open>*\<close> and sets the flag \<open>ast\<close>, a \<open>*\<close> met while \<open>ast\<close> is
  unset compares the rest of the pattern with the end of the path, any other byte
  stands for itself.
\<close>

function url_match :: "bool \<Rightarrow> byte list \<Rightarrow> byte list \<Rightarrow> bool" where
  "url_match ast pat path =
     (case pat of
        [] \<Rightarrow> path = []
      | c # pat' \<Rightarrow>
          if c = 0x5c \<and> pat' \<noteq> [] \<and> hd pat' = 0x2a
          then path \<noteq> [] \<and> hd path = 0x2a \<and> url_match True (tl pat') (tl path)
          else if \<not> ast \<and> c = 0x2a
          then pat' = [] \<or>
               (length pat' \<le> length path \<and>
                ngx_strncmp (drop (length path - length pat') path) pat' (length pat') = 0)
          else path \<noteq> [] \<and> hd path = c \<and> url_match ast pat' (tl path))"
  by pat_completeness auto
termination
  by (relation "measure (\<lambda>(ast, pat, path). length pat)") auto

declare url_match.simps [simp del]

text \<open>Spec 4.6 and glossary, wildcard escape: once \<open>\*\<close> has been met, every \<open>\*\<close>
  stands for the character \<open>*\<close> and every other byte, a \<open>*\<close> too, for itself.\<close>

function unescape :: "byte list \<Rightarrow> byte list" where
  "unescape pat =
     (case pat of
        [] \<Rightarrow> []
      | c # pat' \<Rightarrow>
          if c = 0x5c \<and> pat' \<noteq> [] \<and> hd pat' = 0x2a then 0x2a # unescape (tl pat')
          else c # unescape pat')"
  by pat_completeness auto
termination
  by (relation "measure length") auto

declare unescape.simps [simp del]

text \<open>The bytes of an ASCII string.\<close>

definition bytes_of :: "string \<Rightarrow> byte list" where
  "bytes_of s = map (\<lambda>c. of_nat (of_char c)) s"

text \<open>A decrypted buffer with the pattern \<open>pat\<close>: twelve bytes of checksum and deadline,
  the pattern, and \<open>pad\<close> bytes of padding of value \<open>pad\<close>.\<close>

definition plain_with_url :: "byte list \<Rightarrow> nat \<Rightarrow> byte list" where
  "plain_with_url pat pad = replicate 12 0 @ pat @ replicate pad (of_nat pad)"

text \<open>The request \<open>GET path HTTP/1.1\<close> with no query string and no cookie.\<close>

definition request_for :: "byte list \<Rightarrow> ngx_http_request_t" where
  "request_for path =
     \<lparr> args_pta = None, cookies = [], uri_before = bytes_of ''GET '', uri = path,
       uri_after = bytes_of '' HTTP/1.1'', internal = False \<rparr>"

text \<open>The scan of the pattern never takes a \<open>*\<close> as the wildcard: the flag \<open>ast\<close> is
  set, or there is no \<open>*\<close>, or the first \<open>*\<close> follows a backslash (and sets the flag).\<close>

fun wildcard_free :: "bool \<Rightarrow> byte list \<Rightarrow> bool" where
  "wildcard_free ast [] = True"
| "wildcard_free ast (c # pat) =
     (ast \<or> (c = 0x5c \<and> pat \<noteq> [] \<and> hd pat = 0x2a) \<or> (c \<noteq> 0x2a \<and> wildcard_free ast pat))"

text \<open>The request \<open>GET /a?x HTTP/1.1\<close>: the path is \<open>/a\<close>, and \<open>r->uri.data\<close> points
  into the request line.\<close>

definition request_a_query :: ngx_http_request_t where
  "request_a_query =
     \<lparr> args_pta = None, cookies = [], uri_before = bytes_of ''GET '', uri = bytes_of ''/a'',
       uri_after = bytes_of ''?x HTTP/1.1'', internal = False \<rparr>"

section \<open>One candidate in the words of the specification\<close>

text \<open>
  Spec 4.7, step 3b, on the ciphertext alone: what one key pair (\<open>idx\<close> 0 is the
  primary pair, 1 the secondary) yields for the decoded candidate \<open>data\<close>.  \<open>KP_Skip\<close>:
  the key or the IV is unset; \<open>KP_Fail\<close>: the cipher failed; \<open>KP_Reject\<close>: decrypted and
  rejected by the integrity check; \<open>KP_Accept\<close>: decrypted and accepted.
\<close>

datatype key_plain =
    KP_Skip
  | KP_Fail
  | KP_Fault fault
  | KP_Reject "byte list"
  | KP_Accept "byte list"

definition key_plain ::
  "cipher \<Rightarrow> ngx_http_pta_srv_conf_t \<Rightarrow> byte list \<Rightarrow> nat \<Rightarrow> key_plain" where
  "key_plain D srv data idx =
     (case ngx_http_pta_hex2bin (if idx = 0 then key_1st srv else key_2nd srv) of
        None \<Rightarrow> KP_Skip
      | Some key \<Rightarrow>
          (case ngx_http_pta_hex2bin (if idx = 0 then iv_1st srv else iv_2nd srv) of
             None \<Rightarrow> KP_Skip
           | Some iv \<Rightarrow>
               (case EVP_decrypt D key iv data of
                  None \<Rightarrow> KP_Fail
                | Some out \<Rightarrow>
                    if length out < 12 then KP_Fault PlainOutOfBounds
                    else (case ngx_http_pta_check_crc (plain_pta pta_zero out) of
                            Fault f \<Rightarrow> KP_Fault f
                          | Ret c \<Rightarrow> if c = 0 then KP_Accept out else KP_Reject out))))"

text \<open>The primary pair first; the secondary pair when the primary one is unset or its
  plaintext is rejected.  A final \<open>KP_Skip\<close> or \<open>KP_Reject\<close> means that both pairs are
  exhausted.\<close>

definition keys_plain :: "cipher \<Rightarrow> ngx_http_pta_srv_conf_t \<Rightarrow> byte list \<Rightarrow> key_plain" where
  "keys_plain D srv data =
     (case key_plain D srv data 0 of
        KP_Skip \<Rightarrow> key_plain D srv data 1
      | KP_Reject out \<Rightarrow> key_plain D srv data 1
      | res \<Rightarrow> res)"

text \<open>
  Spec 4.7, steps 3a to 3e, and the error classes of spec 7 for one candidate token
  \<open>c\<close> (a hex string): malformed; cipher failure; integrity failure under both key
  pairs; expired; URL mismatch; authorized.  \<open>Faulted\<close> is an access out of bounds.
\<close>

datatype outcome =
    Malformed
  | CryptoFailed
  | IntegrityFailed
  | Expired
  | UrlMismatch
  | Faulted fault
  | Authorized

definition candidate_outcome ::
  "cipher \<Rightarrow> 64 word \<Rightarrow> ngx_http_pta_srv_conf_t \<Rightarrow> ngx_http_request_t \<Rightarrow> byte list \<Rightarrow> outcome" where
  "candidate_outcome D now srv r c =
     (if length c mod 2 \<noteq> 0 \<or> c = [] then Malformed
      else (case keys_plain D srv (hex2bin_loop c) of
              KP_Fail \<Rightarrow> CryptoFailed
            | KP_Fault f \<Rightarrow> Faulted f
            | KP_Accept out \<Rightarrow>
                if ngx_http_pta_check_deadline now (plain_pta pta_zero out) \<noteq> 0 then Expired
                else (case fst (ngx_http_pta_check_url r (plain_pta pta_zero out)) of
                        Fault f \<Rightarrow> Faulted f
                      | Ret u \<Rightarrow> if u \<noteq> 0 then UrlMismatch else Authorized)
            | KP_Skip \<Rightarrow> IntegrityFailed
            | KP_Reject out \<Rightarrow> IntegrityFailed))"

text \<open>The failures after which the next cookie candidate is tried (spec 4.7, steps 3b
  to 3d).\<close>

definition advancing :: "outcome \<Rightarrow> bool" where
  "advancing oc = (oc = IntegrityFailed \<or> oc = Expired \<or> oc = UrlMismatch)"

text \<open>The candidates that were attempted, in order: each successful
  \<open>ngx_http_pta_build_info\<close> logs the candidate it has decoded.\<close>

fun attempts :: "log_msg list \<Rightarrow> byte list list" where
  "attempts [] = []"
| "attempts (EncryptString c a # ms) = c # attempts ms"
| "attempts (m # ms) = attempts ms"

text \<open>Spec 6, outcome contract: the status the handler returns for the outcome that
  ends the request; \<open>NGX_DECLINED\<close> lets the request proceed.\<close>

definition final_ret :: "outcome \<Rightarrow> ret" where
  "final_ret oc =
     (case oc of
        Malformed \<Rightarrow> Ret NGX_HTTP_BAD_REQUEST
      | CryptoFailed \<Rightarrow> Ret 403
      | IntegrityFailed \<Rightarrow> Ret 403
      | Expired \<Rightarrow> Ret 410
      | UrlMismatch \<Rightarrow> Ret 403
      | Faulted f \<Rightarrow> Fault f
      | Authorized \<Rightarrow> Ret NGX_DECLINED)"

text \<open>
  Spec 4.7, steps 3 and 4, for the ordered list of cookie candidates with the outcome
  \<open>f c\<close> of each: the candidates are taken in order, an advancing failure moves on to
  the next one, anything else ends the run, and so does the last candidate.  The result
  is the status and the list of the candidates that were decoded and attempted.
\<close>

fun candidates_result :: "(byte list \<Rightarrow> outcome) \<Rightarrow> byte list list \<Rightarrow> ret \<times> byte list list" where
  "candidates_result f [] = (Ret NGX_HTTP_BAD_REQUEST, [])"
| "candidates_result f [c] = (final_ret (f c), if f c = Malformed then [] else [c])"
| "candidates_result f (c # c' # cs) =
     (if advancing (f c)
      then (fst (candidates_result f (c' # cs)), c # snd (candidates_result f (c' # cs)))
      else (final_ret (f c), if f c = Malformed then [] else [c]))"

text \<open>The request state in cookie mode with the candidates \<open>cs\<close> parsed and candidate
  \<open>i\<close> the current one.\<close>

definition cookie_state :: "ngx_http_pta_info_t \<Rightarrow> byte list list \<Rightarrow> nat \<Rightarrow> bool" where
  "cookie_state pta cs i =
     (auth_type pta = NGX_IIJPTA_AUTH_COOKIE \<and> encrypt_data_array pta = Some cs
      \<and> unat (encrypt_data_array_idx pta) = i)"

text \<open>The state after lines 437 to 460 of \<open>ngx_http_pta_build_info\<close> have decoded
  \<open>encrypt_string\<close>.\<close>

definition decoded :: "ngx_http_pta_info_t \<Rightarrow> ngx_http_pta_info_t" where
  "decoded p = ngx_log_error (EncryptString (encrypt_string p) (auth_type p))
                 (p\<lparr>encrypt_data := hex2bin_loop (encrypt_string p),
                    encrypt_data_len := length (encrypt_string p) div 2\<rparr>)"

text \<open>Two request states with the same auth type, candidate array, candidate index and
  fallback flag.\<close>

definition same_mode :: "ngx_http_pta_info_t \<Rightarrow> ngx_http_pta_info_t \<Rightarrow> bool" where
  "same_mode p q =
     (auth_type p = auth_type q \<and> encrypt_data_array p = encrypt_data_array q
      \<and> encrypt_data_array_idx p = encrypt_data_array_idx q
      \<and> need_fallback_cookie p = need_fallback_cookie q)"

text \<open>Where the handler goes on after an advancing failure: the end of
  \<open>ngx_http_pta_decrypt\<close> after an integrity failure, the handler's own test after an
  expired deadline (410) or a URL mismatch (403).\<close>

definition advance :: "outcome \<Rightarrow> ngx_http_pta_info_t \<Rightarrow> jump" where
  "advance oc =
     (if oc = IntegrityFailed then decrypt_exhausted
      else next_candidate (if oc = Expired then 410 else 403))"

section \<open>The integrity check in the words of the specification\<close>

text \<open>
  Spec 4.4, steps 2 to 4: the final byte is \<open>padding_value\<close>, in \<open>[1, 16]\<close>;
  \<open>url_len = len (plaintext) - 4 - 8 - padding_value\<close> is non-negative and at most 8192;
  the CRC-32 of the deadline bytes and the URL bytes equals the first four bytes read
  as a big-endian number.
\<close>

definition integrity_spec :: "byte list \<Rightarrow> bool" where
  "integrity_spec plaintext =
     (let padding_value = plaintext ! (length plaintext - 1);
          url_len = int (length plaintext) - 4 - 8 - uint padding_value in
      1 \<le> padding_value \<and> padding_value \<le> 16 \<and> 0 \<le> url_len \<and> url_len \<le> 8192
      \<and> ngx_crc32_long (take 8 (drop 4 plaintext) @ take (nat url_len) (drop 12 plaintext))
            = be32toh (take 4 plaintext))"

text \<open>
  Two decrypted buffers of 8208 bytes (513 blocks) whose final byte is 4, so that
  \<open>url_len\<close> is 8192: \<open>overlong_plain\<close> with an arbitrary checksum, \<open>overlong_token\<close>
  with the checksum of its own deadline and URL bytes in front.
\<close>

definition overlong_plain :: "byte list" where
  "overlong_plain = replicate 8204 0 @ replicate 4 4"

definition overlong_payload :: "byte list" where
  "overlong_payload = replicate 8 0 @ replicate 8192 0x61"

definition overlong_token :: "byte list" where
  "overlong_token = htobe32 (ngx_crc32_long overlong_payload) @ overlong_payload @ replicate 4 4"


section \<open>Cookie headers in the words of the specification\<close>

text \<open>A Cookie header value made of the pairs \<open>name=value\<close>, separated by \<open>; \<close>.\<close>

fun cookie_header :: "(byte list \<times> byte list) list \<Rightarrow> byte list" where
  "cookie_header [] = []"
| "cookie_header [nv] = fst nv @ 0x3d # snd nv"
| "cookie_header (nv # nv' # ps) = fst nv @ 0x3d # snd nv @ [0x3b, 0x20] @ cookie_header (nv' # ps)"

text \<open>A pair as browsers send it: no \<open>;\<close> in it, a value that is not empty and starts
  neither with a space nor with \<open>p\<close> or \<open>P\<close> (a hex token never does), and a name that
  is \<open>pta\<close> or starts with a byte other than a space, \<open>p\<close> and \<open>P\<close>.\<close>

definition cookie_pair_ok :: "byte list \<times> byte list \<Rightarrow> bool" where
  "cookie_pair_ok nv =
     (0x3b \<notin> set (fst nv) \<and> 0x3b \<notin> set (snd nv) \<and> snd nv \<noteq> [] \<and> hd (snd nv) \<noteq> 0x20
      \<and> ngx_tolower (hd (snd nv)) \<noteq> 0x70
      \<and> (fst nv = QUERY_PARAM
         \<or> (fst nv \<noteq> [] \<and> hd (fst nv) \<noteq> 0x20 \<and> ngx_tolower (hd (fst nv)) \<noteq> 0x70)))"

text \<open>The values of the cookies named \<open>pta\<close>, in the order of occurrence.\<close>

definition pta_values :: "(byte list \<times> byte list) list \<Rightarrow> byte list list" where
  "pta_values ps = map snd (filter (\<lambda>nv. fst nv = QUERY_PARAM) ps)"

section \<open>Example tokens, keys and requests\<close>

text \<open>A cipher given by a finite table from key and ciphertext to plaintext; what is
  not in the table decrypts to zero bytes.  It instantiates the parameter \<open>D\<close> in the
  examples.\<close>

definition lookup_cipher :: "((byte list \<times> byte list) \<times> byte list) list \<Rightarrow> cipher" where
  "lookup_cipher tbl key iv data =
     (case map_of tbl (key, data) of
        None \<Rightarrow> Some (replicate (length data) 0)
      | Some p \<Rightarrow> Some p)"

text \<open>The plaintext of a token as spec 3 lays it out: checksum of deadline and URL
  pattern, deadline \<open>d\<close>, pattern \<open>pat\<close>, and \<open>pad\<close> padding bytes of value \<open>pad\<close>.\<close>

definition token_plain :: "64 word \<Rightarrow> byte list \<Rightarrow> nat \<Rightarrow> byte list" where
  "token_plain d pat pad =
     htobe32 (ngx_crc32_long (htobe64 d @ pat)) @ htobe64 d @ pat @ replicate pad (of_nat pad)"

text \<open>A server with both key pairs set: the primary key and IV are sixteen bytes
  \<open>0x00\<close>, the secondary ones sixteen bytes \<open>0x11\<close>.\<close>

definition ex_srv :: ngx_http_pta_srv_conf_t where
  "ex_srv = \<lparr> key_1st = replicate 32 0x30, iv_1st = replicate 32 0x30,
              key_2nd = replicate 32 0x31, iv_2nd = replicate 32 0x31 \<rparr>"

text \<open>The token \<open>cc..\<close> is a valid token under the secondary pair (deadline 2000,
  pattern \<open>/*\<close>); under the primary pair \<open>bb..\<close> is one with the pattern \<open>/ab\<close> and
  \<open>dd..\<close> one with the deadline 1000; everything else decrypts to zero bytes.\<close>

definition ex_cipher :: cipher where
  "ex_cipher = lookup_cipher
     [((replicate 16 0x11, replicate 16 0xcc), token_plain 2000 (bytes_of ''/*'') 2),
      ((replicate 16 0, replicate 16 0xbb), token_plain 2000 (bytes_of ''/ab'') 1),
      ((replicate 16 0, replicate 16 0xdd), token_plain 1000 (bytes_of ''/*'') 2)]"

definition ex_loc_cookie :: ngx_http_pta_loc_conf_t where
  "ex_loc_cookie = \<lparr> pta_onoff = True, pta_auth_method = NGX_IIJPTA_AUTH_COOKIE \<rparr>"

definition ex_loc_both :: ngx_http_pta_loc_conf_t where
  "ex_loc_both =
     \<lparr> pta_onoff = True, pta_auth_method = NGX_IIJPTA_AUTH_QS + NGX_IIJPTA_AUTH_COOKIE \<rparr>"

definition ex_loc_qs :: ngx_http_pta_loc_conf_t where
  "ex_loc_qs = \<lparr> pta_onoff = True, pta_auth_method = NGX_IIJPTA_AUTH_QS \<rparr>"

text \<open>Two Cookie headers with three \<open>pta\<close> cookies and one other cookie.\<close>

definition ex_cookie_pairs :: "(byte list \<times> byte list) list list" where
  "ex_cookie_pairs =
     [[(QUERY_PARAM, replicate 32 0x61), (bytes_of ''lang'', bytes_of ''en''),
       (QUERY_PARAM, replicate 32 0x62)],
      [(QUERY_PARAM, replicate 32 0x63)]]"

text \<open>The request \<open>GET /a HTTP/1.1\<close> with these Cookie headers and no query string.\<close>

definition ex_request_cookie :: ngx_http_request_t where
  "ex_request_cookie =
     \<lparr> args_pta = None, cookies = map cookie_header ex_cookie_pairs,
       uri_before = bytes_of ''GET '', uri = bytes_of ''/a'', uri_after = bytes_of '' HTTP/1.1'',
       internal = False \<rparr>"

text \<open>The request \<open>GET /a?pta=token HTTP/1.1\<close> with no cookie.\<close>

definition ex_request_qs :: "byte list \<Rightarrow> ngx_http_request_t" where
  "ex_request_qs token =
     \<lparr> args_pta = Some token, cookies = [],
       uri_before = bytes_of ''GET '', uri = bytes_of ''/a'',
       uri_after = bytes_of ''?pta='' @ token @ bytes_of '' HTTP/1.1'', internal = False \<rparr>"

text \<open>The request \<open>GET /a?pta=aa.. HTTP/1.1\<close> with the Cookie headers above: a token in
  the query string that fails the integrity check, and a valid one among the cookies.\<close>

definition ex_request_both :: ngx_http_request_t where
  "ex_request_both =
     \<lparr> args_pta = Some (replicate 32 0x61), cookies = map cookie_header ex_cookie_pairs,
       uri_before = bytes_of ''GET '', uri = bytes_of ''/a'',
       uri_after = bytes_of ''?pta='' @ replicate 32 0x61 @ bytes_of '' HTTP/1.1'',
       internal = False \<rparr>"

text \<open>One Cookie header whose second \<open>pta\<close> cookie has an odd number of characters,
  and the request \<open>GET /a HTTP/1.1\<close> with it.\<close>

definition ex_cookie_pairs_odd :: "(byte list \<times> byte list) list list" where
  "ex_cookie_pairs_odd =
     [[(QUERY_PARAM, replicate 32 0x61), (QUERY_PARAM, replicate 31 0x61),
       (QUERY_PARAM, replicate 32 0x63)]]"

definition ex_request_cookie_odd :: ngx_http_request_t where
  "ex_request_cookie_odd =
     \<lparr> args_pta = None, cookies = map cookie_header ex_cookie_pairs_odd,
       uri_before = bytes_of ''GET '', uri = bytes_of ''/a'', uri_after = bytes_of '' HTTP/1.1'',
       internal = False \<rparr>"

text \<open>The request state in cookie mode with two candidates parsed and the first one
  current; the same state after a token that has expired was decrypted.\<close>

definition ex_state_cookie :: ngx_http_pta_info_t where
  "ex_state_cookie =
     pta_zero\<lparr>auth_type := NGX_IIJPTA_AUTH_COOKIE,
              encrypt_data_array := Some [replicate 32 0x61, replicate 32 0x63]\<rparr>"

definition ex_state_expired :: ngx_http_pta_info_t where
  "ex_state_expired =
     ex_state_cookie\<lparr>decrypt_data := set_decrypt_data (token_plain 1000 (bytes_of ''/*'') 2) 16\<rparr>"

section \<open>Byte order and the deadline check\<close>

lemma be32_roundtrip: "be32toh (htobe32 w) = w"
  unfolding be32toh_def htobe32_def
  apply simp
  apply (rule bit_word_eqI)
  subgoal for n
    apply (cases "n < 8"; cases "n < 16"; cases "n < 24")
    apply (auto simp add: bit_simps)
    done
  done

lemma bit_be_byte:
  "k + 8 \<le> 64 \<Longrightarrow> bit (push_bit k (ucast (ucast (drop_bit k (w::64 word)) :: byte)) :: 64 word) n
      \<longleftrightarrow> k \<le> n \<and> n < k + 8 \<and> bit w n"
  by (auto simp add: bit_simps)

lemma be64_roundtrip: "be64toh (htobe64 w) = w"
proof (rule bit_word_eqI)
  fix n assume n: "n < LENGTH(64)"
  have "bit (be64toh (htobe64 w)) n \<longleftrightarrow>
      (56 \<le> n \<and> n < 56 + 8 \<and> bit w n) \<or> (48 \<le> n \<and> n < 48 + 8 \<and> bit w n) \<or>
      (40 \<le> n \<and> n < 40 + 8 \<and> bit w n) \<or> (32 \<le> n \<and> n < 32 + 8 \<and> bit w n) \<or>
      (24 \<le> n \<and> n < 24 + 8 \<and> bit w n) \<or> (16 \<le> n \<and> n < 16 + 8 \<and> bit w n) \<or>
      (8 \<le> n \<and> n < 8 + 8 \<and> bit w n) \<or> (0 \<le> n \<and> n < 0 + 8 \<and> bit w n)"
    unfolding be64toh_def htobe64_def
    using bit_be_byte[of 0 w n]
    by (simp add: upt_rec bit_or_iff bit_be_byte del: bit_push_bit_iff)
  also have "\<dots> \<longleftrightarrow> bit w n" using n by auto
  finally show "bit (be64toh (htobe64 w)) n = bit w n" .
qed

lemma length_htobe64: "length (htobe64 w) = 8"
  by (simp add: htobe64_def)

lemma length_htobe32: "length (htobe32 w) = 4"
  by (simp add: htobe32_def)

lemma deadline_plain:
  "length c = 4 \<Longrightarrow> deadline (decrypt_data (plain_pta pta (c @ htobe64 d @ rest))) = htobe64 d"
  by (simp add: plain_pta_def set_decrypt_data_def length_htobe64)

lemma sint_pred:
  fixes w :: "64 word"
  assumes "sint w \<noteq> - (2 ^ 63)"
  shows "sint (w - 1) = sint w - 1"
proof -
  have "- (2 ^ 63) \<le> sint w" "sint w < 2 ^ 63"
    using sint_ge[of w] sint_lt[of w] by simp_all
  with assms have "- (2 ^ 63) \<le> sint w - 1" "sint w - 1 < 2 ^ 63" by simp_all
  then have "signed_take_bit 63 (sint w - 1) = sint w - 1"
    by (simp add: signed_take_bit_int_eq_self)
  then show ?thesis by (simp add: sint_word_ariths)
qed

text \<open>
  Claim C5.  The eight deadline bytes of the decrypted buffer are read as a big-endian
  64-bit signed timestamp \<open>d\<close>; the check reports expired exactly when \<open>now > d\<close>:
  a deadline equal to \<open>now\<close> is still valid, a deadline of \<open>now - 1\<close> is expired.
\<close>

theorem check_deadline_inclusive:
  fixes now d :: "64 word"
  assumes "length c = 4"
  shows "ngx_http_pta_check_deadline now (plain_pta pta (c @ htobe64 d @ rest))
           = (if sint now > sint d then 1 else 0)
       \<and> ngx_http_pta_check_deadline now (plain_pta pta (c @ htobe64 now @ rest)) = 0
       \<and> (sint now \<noteq> - (2 ^ 63) \<longrightarrow>
            ngx_http_pta_check_deadline now (plain_pta pta (c @ htobe64 (now - 1) @ rest)) = 1)"
  using assms
  by (simp add: ngx_http_pta_check_deadline_def deadline_plain be64_roundtrip sint_pred)

theorem check_deadline_inclusive_witness:
  "length [0, 0, 0, 0 :: byte] = 4
   \<and> ngx_http_pta_check_deadline 1700000000
        (plain_pta pta_zero ([0, 0, 0, 0] @ htobe64 1700000000 @ [4, 4, 4, 4])) = 0
   \<and> sint (1700000000 :: 64 word) \<noteq> - (2 ^ 63)
   \<and> ngx_http_pta_check_deadline 1700000000
        (plain_pta pta_zero ([0, 0, 0, 0] @ htobe64 (1700000000 - 1) @ [4, 4, 4, 4])) = 1"
proof -
  have l: "length [0, 0, 0, 0 :: byte] = 4" by simp
  have s: "sint (1700000000 :: 64 word) \<noteq> - (2 ^ 63)" by simp
  show ?thesis
    using check_deadline_inclusive[OF l, of 1700000000 pta_zero 1700000000 "[4, 4, 4, 4]"] s l
    by blast
qed


section \<open>The integrity check\<close>

lemma plain_pta_fields:
  "padding_val (decrypt_data (plain_pta pta out)) = out ! (length out - 1)"
  "deadline (decrypt_data (plain_pta pta out)) = take 8 (drop 4 out)"
  "url (decrypt_data (plain_pta pta out)) = drop 12 out"
  "crc (decrypt_data (plain_pta pta out)) = be32toh (take 4 out)"
  "encrypt_data_len (plain_pta pta out) = length out"
  by (simp_all add: plain_pta_def set_decrypt_data_def)

lemma url_len_of_plain:
  assumes "length out < 2 ^ 64" "unat (out ! (length out - 1)) \<le> 16"
  shows "url_len_of (plain_pta pta out) =
      (if 12 + unat (out ! (length out - 1)) \<le> length out
       then length out - 12 - unat (out ! (length out - 1))
       else 2 ^ 64 - (12 + unat (out ! (length out - 1)) - length out))"
  using assms
  by (auto simp add: url_len_of_def plain_pta_fields mod_if)

lemma length_raw_array: "length raw_array = 8192"
  by (simp add: raw_array_def)

lemma memcpy_twice:
  assumes "length d = 8" "8 + length u \<le> length r"
  shows "\<exists>raw1 raw2. memcpy r 0 d = Inr raw1 \<and> memcpy raw1 8 u = Inr raw2
            \<and> take (8 + length u) raw2 = d @ u"
  using assms by (simp add: memcpy_def)

lemma memcpy_overflow:
  assumes "length d = 8" "8 \<le> length r" "length r < 8 + length u"
  shows "\<exists>raw1. memcpy r 0 d = Inr raw1 \<and> memcpy raw1 8 u = Inl RawOverflow"
  using assms by (simp add: memcpy_def)

lemma check_crc_cases:
  assumes "length out < 2 ^ 64"
  shows "ngx_http_pta_check_crc (plain_pta pta out) =
     (let pad = out ! (length out - 1); n = length out - 12 - unat pad in
      if pad < 1 \<or> 16 < pad \<or> length out < 12 + unat pad \<or> 8192 < n then Ret 1
      else if 8184 < n then Fault RawOverflow
      else if ngx_crc32_long (take 8 (drop 4 out) @ take n (drop 12 out)) \<noteq> be32toh (take 4 out)
      then Ret 1 else Ret NGX_OK)"
proof -
  let ?pad = "out ! (length out - 1)"
  let ?n = "length out - 12 - unat ?pad"
  let ?p = "plain_pta pta out"
  note dd = plain_pta_fields[of pta out]
  show ?thesis
  proof (cases "?pad < 1 \<or> 16 < ?pad")
    case True
    then show ?thesis
      by (auto simp add: ngx_http_pta_check_crc_def dd Let_def)
  next
    case False
    then have p: "unat ?pad \<le> 16" by (simp add: word_le_nat_alt not_less)
    note ul = url_len_of_plain[OF assms p, of pta]
    show ?thesis
    proof (cases "12 + unat ?pad \<le> length out")
      case len: True
      then have ul': "url_len_of ?p = ?n" using ul by simp
      have ld: "length (take 8 (drop 4 out)) = 8" using len by simp
      have lu: "length (take ?n (drop 12 out)) = ?n" using len by simp
      have nle: "\<not> length (drop 12 out) < ?n" by simp
      show ?thesis
      proof (cases "8192 < ?n")
        case True
        with False ul' show ?thesis
          by (simp add: ngx_http_pta_check_crc_def dd Let_def)
      next
        case n1: False
        show ?thesis
        proof (cases "8184 < ?n")
          case True
          then have "length raw_array < 8 + length (take ?n (drop 12 out))"
            unfolding lu length_raw_array by simp
          from memcpy_overflow[OF ld _ this] obtain raw1 where
            "memcpy raw_array 0 (take 8 (drop 4 out)) = Inr raw1"
            "memcpy raw1 8 (take ?n (drop 12 out)) = Inl RawOverflow"
            by (auto simp add: length_raw_array)
          with False n1 True ul' len nle show ?thesis
            by (simp add: ngx_http_pta_check_crc_def dd Let_def)
        next
          case n2: False
          then have "8 + length (take ?n (drop 12 out)) \<le> length raw_array"
            unfolding lu length_raw_array by simp
          from memcpy_twice[OF ld this] obtain raw1 raw2 where
            "memcpy raw_array 0 (take 8 (drop 4 out)) = Inr raw1"
            "memcpy raw1 8 (take ?n (drop 12 out)) = Inr raw2"
            "take (8 + ?n) raw2 = take 8 (drop 4 out) @ take ?n (drop 12 out)"
            unfolding lu by blast
          with False n1 n2 ul' len nle show ?thesis
            by (simp add: ngx_http_pta_check_crc_def dd Let_def)
        qed
      qed
    next
      case len: False
      then have "url_len_of ?p > 8192" using ul p by simp
      with False len show ?thesis
        by (simp add: ngx_http_pta_check_crc_def dd Let_def)
    qed
  qed
qed

lemma integrity_spec_alt:
  "integrity_spec out \<longleftrightarrow>
     (let pad = out ! (length out - 1); n = length out - 12 - unat pad in
      \<not> (pad < 1 \<or> 16 < pad \<or> length out < 12 + unat pad \<or> 8192 < n)
      \<and> ngx_crc32_long (take 8 (drop 4 out) @ take n (drop 12 out)) = be32toh (take 4 out))"
proof -
  let ?pad = "out ! (length out - 1)"
  define p where "p = unat ?pad"
  define L where "L = length out"
  have up: "uint ?pad = int p" unfolding p_def by (rule uint_nat)
  have n: "12 + p \<le> L \<Longrightarrow> nat (int L - 4 - 8 - int p) = L - 12 - p"
    by arith
  have a: "(0 \<le> int L - 4 - 8 - int p) \<longleftrightarrow> 12 + p \<le> L"
    by arith
  have b: "12 + p \<le> L \<Longrightarrow> (int L - 4 - 8 - int p \<le> 8192) \<longleftrightarrow> L - 12 - p \<le> 8192"
    by arith
  have c: "(1 \<le> ?pad) \<longleftrightarrow> \<not> ?pad < 1" "?pad \<le> 16 \<longleftrightarrow> \<not> 16 < ?pad"
    by (simp_all only: not_less)
  have "integrity_spec out \<longleftrightarrow>
      (\<not> ?pad < 1 \<and> \<not> 16 < ?pad \<and> 0 \<le> int L - 4 - 8 - int p \<and> int L - 4 - 8 - int p \<le> 8192
       \<and> ngx_crc32_long (take 8 (drop 4 out) @ take (nat (int L - 4 - 8 - int p)) (drop 12 out))
           = be32toh (take 4 out))"
    unfolding integrity_spec_def Let_def c up L_def ..
  also have "\<dots> \<longleftrightarrow> (\<not> ?pad < 1 \<and> \<not> 16 < ?pad \<and> 12 + p \<le> L \<and> L - 12 - p \<le> 8192
       \<and> ngx_crc32_long (take 8 (drop 4 out) @ take (L - 12 - p) (drop 12 out))
           = be32toh (take 4 out))"
    using n b unfolding a by auto
  also have "\<dots> \<longleftrightarrow> (let pad = out ! (length out - 1); n = length out - 12 - unat pad in
      \<not> (pad < 1 \<or> 16 < pad \<or> length out < 12 + unat pad \<or> 8192 < n)
      \<and> ngx_crc32_long (take 8 (drop 4 out) @ take n (drop 12 out)) = be32toh (take 4 out))"
    unfolding Let_def p_def L_def by (auto simp add: not_less)
  finally show ?thesis .
qed

text \<open>Within the scratch array the check decides as the specification says.\<close>

lemma check_crc_accepts_iff:
  assumes "length out < 2 ^ 64" "length out - 12 - unat (out ! (length out - 1)) \<le> 8184"
  shows "ngx_http_pta_check_crc (plain_pta pta out) = Ret NGX_OK \<longleftrightarrow> integrity_spec out"
    and "ngx_http_pta_check_crc (plain_pta pta out) = Ret 1 \<longleftrightarrow> \<not> integrity_spec out"
  using assms(2)
  unfolding check_crc_cases[OF assms(1)] integrity_spec_alt Let_def
  by (auto simp add: NGX_OK_def)

lemma check_crc_rejects:
  assumes "length out < 2 ^ 64" "\<not> integrity_spec out"
  shows "ngx_http_pta_check_crc (plain_pta pta out) = Ret 1
       \<or> ngx_http_pta_check_crc (plain_pta pta out) = Fault RawOverflow"
  using assms(2)
  unfolding check_crc_cases[OF assms(1)] integrity_spec_alt Let_def
  by (auto simp add: NGX_OK_def)

text \<open>
  Claim C2.  The claim says that every buffer that passes the padding check and the
  check \<open>url_len \<le> 8192\<close> is copied within the 8192-byte array \<open>raw\<close>.  For the buffer
  \<open>overlong_plain\<close> the padding value is 4 and \<open>url_len\<close> is 8192, both checks pass, and
  the second \<open>memcpy\<close> writes \<open>raw[8]\<close> to \<open>raw[8199]\<close>: it leaves the array.
\<close>

theorem check_crc_raw_overflow:
  "padding_val (decrypt_data (plain_pta pta_zero overlong_plain)) = 4
   \<and> url_len_of (plain_pta pta_zero overlong_plain) = 8192
   \<and> ngx_http_pta_check_crc (plain_pta pta_zero overlong_plain) = Fault RawOverflow"
proof -
  have l: "length overlong_plain = 8208" by (simp add: overlong_plain_def)
  have p: "overlong_plain ! 8207 = 4"
    by (simp add: overlong_plain_def nth_append)
  have l64: "length overlong_plain < 2 ^ 64" unfolding l by simp
  have "unat (overlong_plain ! (length overlong_plain - 1)) \<le> 16" by (simp add: l p)
  from url_len_of_plain[OF l64 this, of pta_zero]
  have u: "url_len_of (plain_pta pta_zero overlong_plain) = 8192"
    by (simp add: l p)
  have c: "ngx_http_pta_check_crc (plain_pta pta_zero overlong_plain) = Fault RawOverflow"
    unfolding check_crc_cases[OF l64] by (simp add: l p)
  show ?thesis using u c by (simp add: plain_pta_fields l p)
qed

text \<open>
  Claim C1.  The claim says that the check accepts exactly the buffers that satisfy
  \<open>integrity_spec\<close>.  \<open>overlong_token\<close> satisfies it (padding value 4, \<open>url_len\<close> 8192,
  matching checksum) and the check does not return: it overruns \<open>raw\<close> before the
  checksum is computed.  For \<open>url_len \<le> 8184\<close> the check decides as the claim says
  (\<open>check_crc_accepts_iff\<close>).
\<close>

theorem check_crc_not_accept_valid:
  "integrity_spec overlong_token
   \<and> ngx_http_pta_check_crc (plain_pta pta_zero overlong_token) = Fault RawOverflow"
proof -
  have lp: "length overlong_payload = 8200" by (simp add: overlong_payload_def)
  have l: "length overlong_token = 8208"
    by (simp add: overlong_token_def lp length_htobe32)
  have p: "overlong_token ! 8207 = 4"
    by (simp add: overlong_token_def nth_append lp length_htobe32)
  have l64: "length overlong_token < 2 ^ 64" unfolding l by simp
  have t4: "take 4 overlong_token = htobe32 (ngx_crc32_long overlong_payload)"
    by (simp add: overlong_token_def length_htobe32)
  have d: "take 8 (drop 4 overlong_token) @ take 8192 (drop 12 overlong_token) = overlong_payload"
    by (simp add: overlong_token_def length_htobe32 overlong_payload_def)
  have c: "ngx_http_pta_check_crc (plain_pta pta_zero overlong_token) = Fault RawOverflow"
    unfolding check_crc_cases[OF l64] by (simp add: l p)
  have s: "integrity_spec overlong_token"
    unfolding integrity_spec_alt using d by (simp add: l p t4 be32_roundtrip)
  show ?thesis using c s by simp
qed

section \<open>The URL matcher\<close>

lemma wildcard_len_scan:
  assumes "u = pre @ s1 @ s2 @ pad # tail" "pad \<notin> set s2"
  shows "wildcard_len u pad (length pre) (length s1) = Some (length s1 + length s2)"
  using assms
proof (induction s2 arbitrary: s1)
  case Nil
  then show ?case
    by (subst wildcard_len.simps) (simp add: nth_append)
next
  case (Cons a s2)
  have "wildcard_len u pad (length pre) (length (s1 @ [a])) = Some (length (s1 @ [a]) + length s2)"
    by (rule Cons.IH) (use Cons.prems in simp_all)
  with Cons.prems show ?case
    by (subst wildcard_len.simps) (auto simp add: nth_append)
qed

lemma wildcard_len_found:
  assumes "u = pre @ suf @ pad # tail" "pad \<notin> set suf"
  shows "wildcard_len u pad (length pre) 0 = Some (length suf)"
  using wildcard_len_scan[of u pre "[]" suf pad tail] assms by simp

lemma ngx_strncmp_take:
  "ngx_strncmp a (b @ c) (length b) = ngx_strncmp a b (length b)"
proof (induction b arbitrary: a)
  case Nil
  then show ?case by simp
next
  case (Cons x b)
  then show ?case by (simp add: byte_at_def Let_def)
qed

lemma uint_diff_0: "uint (c1 :: byte) - uint (c2 :: byte) = 0 \<longleftrightarrow> c1 = c2"
  by (simp add: word_uint_eq_iff)

lemma ngx_strncmp_eq:
  assumes "length a = length b" "0 \<notin> set a"
  shows "ngx_strncmp a b (length b) = 0 \<longleftrightarrow> a = b"
  using assms
proof (induction b arbitrary: a)
  case Nil
  then show ?case by simp
next
  case (Cons x b)
  then obtain y a' where a: "a = y # a'" by (cases a) auto
  with Cons.prems have "length a' = length b" "0 \<notin> set a'" "y \<noteq> 0" by auto
  with Cons.IH[of a'] a show ?case
    by (auto simp add: byte_at_def Let_def uint_0_iff simp flip: word_uint_eq_iff)
qed

lemma url_match_Nil: "url_match ast [] path = (path = [])"
  by (subst url_match.simps) simp

lemma url_match_Cons:
  "url_match ast (c # pat') path =
     (if c = 0x5c \<and> pat' \<noteq> [] \<and> hd pat' = 0x2a
      then path \<noteq> [] \<and> hd path = 0x2a \<and> url_match True (tl pat') (tl path)
      else if \<not> ast \<and> c = 0x2a
      then pat' = [] \<or>
           (length pat' \<le> length path \<and>
            ngx_strncmp (drop (length path - length pat') path) pat' (length pat') = 0)
      else path \<noteq> [] \<and> hd path = c \<and> url_match ast pat' (tl path))"
  by (subst url_match.simps) simp


lemma uri_data_mem:
  assumes "uri r @ uri_after r = m1 @ b # m2"
  shows "uri_data r (length m1) = Some b"
proof -
  have "length (uri r) + length (uri_after r) = length (m1 @ b # m2)"
    using assms by (metis length_append)
  then show ?thesis by (simp add: uri_data_def assms)
qed

lemma uri_data_path:
  assumes "uri r = udone @ y # path"
  shows "uri_data r (length udone) = Some y"
  by (rule uri_data_mem[of r udone y "path @ uri_after r"]) (simp add: assms)

lemma uri_data_end:
  assumes "uri_data r (length (uri r)) = Some b"
  shows "\<exists>m2. uri_after r = b # m2"
  using assms by (cases "uri_after r") (simp_all add: uri_data_def nth_append split: if_splits)

text \<open>One pass of the loop, seen from the pattern that is left.\<close>

lemma check_url_loop_pat:
  assumes "url (decrypt_data pta) = done @ pat @ pad # tail"
    and "padding_val (decrypt_data pta) = pad" "pad \<notin> set pat" "pad \<noteq> 0x2a"
  shows "check_url_loop r pta ast idx (length done) =
    (case pat of
       [] \<Rightarrow> (if idx \<noteq> length (uri r) then (Ret 1, []) else (Ret 0, []))
     | c # pat' \<Rightarrow>
         if c = 0x5c \<and> pat' \<noteq> [] \<and> hd pat' = 0x2a
         then (case uri_data r idx of
                 None \<Rightarrow> (Fault UriOutOfBounds, [])
               | Some b \<Rightarrow>
                   if b \<noteq> 0x2a then (Ret 1, [])
                   else check_url_loop r pta True (idx + 1) (length (done @ [c, 0x2a])))
         else if \<not> ast \<and> c = 0x2a
         then ngx_http_pta_check_wildcard_url r pta (length done) idx
         else (case uri_data r idx of
                 None \<Rightarrow> (Fault UriOutOfBounds, [])
               | Some b \<Rightarrow>
                   if b \<noteq> c then (Ret 1, [])
                   else check_url_loop r pta ast (idx + 1) (length (done @ [c]))))"
proof -
  let ?u = "url (decrypt_data pta)"
  let ?wdx = "length done"
  note u = assms(1) and pd = assms(2)
  have lu: "\<not> length ?u \<le> ?wdx" using u by simp
  show ?thesis
  proof (cases pat)
    case Nil
    with u have "?u ! ?wdx = pad" by (simp add: nth_append)
    with lu pd Nil show ?thesis
      by (subst check_url_loop.simps) (simp add: Let_def)
  next
    case (Cons c pat')
    with u assms(3) have c: "?u ! ?wdx = c" "c \<noteq> pad" by (auto simp add: nth_append)
    have lu1: "\<not> length ?u \<le> ?wdx + 1" using u Cons by simp
    have n1: "?u ! (?wdx + 1) = (if pat' = [] then pad else hd pat')"
      using u Cons by (cases pat') (simp_all add: nth_append)
    show ?thesis
    proof (cases "c = 0x5c \<and> pat' \<noteq> [] \<and> hd pat' = 0x2a")
      case esc: True
      with lu lu1 c pd n1 Cons show ?thesis
        by (subst check_url_loop.simps) (auto simp add: Let_def split: option.splits)
    next
      case nesc: False
      then have ne: "\<not> (c = 0x5c \<and> ?u ! (?wdx + 1) = 0x2a)"
        using n1 assms(4) by auto
      show ?thesis
      proof (cases "\<not> ast \<and> c = 0x2a")
        case True
        with lu lu1 c pd ne nesc Cons show ?thesis
          by (subst check_url_loop.simps) (simp add: Let_def)
      next
        case False
        with lu lu1 c pd ne nesc Cons show ?thesis
          by (subst check_url_loop.simps) (auto simp add: Let_def split: option.splits)
      qed
    qed
  qed
qed

lemma check_wildcard_url_eval:
  assumes u: "url (decrypt_data pta) = pre @ 0x2a # suf @ pad # tail"
    and pad: "padding_val (decrypt_data pta) = pad" "pad \<notin> set suf"
  shows "fst (ngx_http_pta_check_wildcard_url r pta (length pre) idx) =
     (if suf = [] then Ret 0
      else if (length (uri r) + 2 ^ 64 - idx) mod 2 ^ 64 < length suf then Ret 1
      else if length (uri_before r) + length (uri r) < length suf then Fault UriOutOfBounds
      else if ngx_strncmp
                (drop (length (uri_before r) + length (uri r) - length suf) (uri_before r @ uri r))
                suf (length suf) = 0
      then Ret 0 else Ret 1)"
proof -
  have "url (decrypt_data pta) = (pre @ [0x2a]) @ suf @ pad # tail" using u by simp
  from wildcard_len_found[OF this pad(2)]
  have wl: "wildcard_len (url (decrypt_data pta)) pad (length pre + 1) 0 = Some (length suf)"
    by simp
  have dr: "drop (Suc (length pre)) (url (decrypt_data pta)) = suf @ pad # tail"
    using u by simp
  show ?thesis
    using wl pad(1)
    by (simp add: ngx_http_pta_check_wildcard_url_def Let_def dr ngx_strncmp_take)
qed

lemma size_t_sub:
  assumes "length (udone @ path) < 2 ^ 64"
  shows "(length (udone @ path) + 2 ^ 64 - length udone) mod 2 ^ 64 = length path"
proof -
  have "length (udone @ path) + 2 ^ 64 - length udone = length path + 2 ^ 64" by simp
  moreover have "length path < 2 ^ 64" using assms by simp
  ultimately show ?thesis by simp
qed

text \<open>The wildcard met inside the path.\<close>

lemma check_wildcard_url_inside:
  assumes u: "url (decrypt_data pta) = pre @ 0x2a # suf @ pad # tail"
    and pad: "padding_val (decrypt_data pta) = pad" "pad \<notin> set suf"
    and uri: "uri r = udone @ path" "length (uri r) < 2 ^ 64"
  shows "fst (ngx_http_pta_check_wildcard_url r pta (length pre) (length udone)) =
     (if suf = [] \<or> (length suf \<le> length path \<and>
           ngx_strncmp (drop (length path - length suf) path) suf (length suf) = 0)
      then Ret 0 else Ret 1)"
proof -
  have sub: "(length (uri r) + 2 ^ 64 - length udone) mod 2 ^ 64 = length path"
    using size_t_sub[of udone path] uri by simp
  show ?thesis
  proof (cases "length suf \<le> length path")
    case True
    then have "drop (length (uri_before r) + length (uri r) - length suf) (uri_before r @ uri r)
        = drop (length path - length suf) path"
      using uri(1) by simp
    moreover have "\<not> length (uri_before r) + length (uri r) < length suf"
      using True uri(1) by simp
    ultimately show ?thesis
      unfolding check_wildcard_url_eval[OF u pad] sub using True by simp
  next
    case False
    then show ?thesis
      unfolding check_wildcard_url_eval[OF u pad] sub by simp
  qed
qed

lemma check_wildcard_url_range:
  assumes u: "url (decrypt_data pta) = pre @ 0x2a # suf @ pad # tail"
    and pad: "padding_val (decrypt_data pta) = pad" "pad \<notin> set suf"
  shows "fst (ngx_http_pta_check_wildcard_url r pta (length pre) idx)
           \<in> {Ret 0, Ret 1, Fault UriOutOfBounds}"
  unfolding check_wildcard_url_eval[OF u pad] by simp

lemma check_url_loop_range:
  assumes "url (decrypt_data pta) = done @ pat @ pad # tail"
    and "padding_val (decrypt_data pta) = pad" "pad \<notin> set pat" "pad \<noteq> 0x2a"
  shows "fst (check_url_loop r pta ast idx (length done)) \<in> {Ret 0, Ret 1, Fault UriOutOfBounds}"
  using assms(1,3)
proof (induction pat arbitrary: "done" idx ast rule: length_induct)
  case (1 pat)
  note step = check_url_loop_pat[OF "1.prems"(1) assms(2) "1.prems"(2) assms(4), of r ast idx]
  show ?case
  proof (cases pat)
    case Nil
    then show ?thesis unfolding step by simp
  next
    case (Cons c pat')
    have pn: "pad \<notin> set pat'" using "1.prems"(2) Cons by simp
    show ?thesis
    proof (cases "c = 0x5c \<and> pat' \<noteq> [] \<and> hd pat' = 0x2a")
      case esc: True
      then obtain pat'' where p': "pat' = 0x2a # pat''" by (cases pat') auto
      have IH: "fst (check_url_loop r pta True (idx + 1) (length (done @ [c, 0x2a])))
          \<in> {Ret 0, Ret 1, Fault UriOutOfBounds}"
        by (rule "1.IH"[rule_format, of pat'']) (use "1.prems" Cons p' pn in simp_all)
      show ?thesis
        unfolding step using IH esc Cons by (auto split: option.splits)
    next
      case nesc: False
      show ?thesis
      proof (cases "\<not> ast \<and> c = 0x2a")
        case True
        have u': "url (decrypt_data pta) = done @ 0x2a # pat' @ pad # tail"
          using "1.prems"(1) Cons True by simp
        show ?thesis
          unfolding step using check_wildcard_url_range[OF u' assms(2) pn, of r idx] nesc True Cons
          by simp
      next
        case False
        have IH: "fst (check_url_loop r pta ast (idx + 1) (length (done @ [c])))
            \<in> {Ret 0, Ret 1, Fault UriOutOfBounds}"
          by (rule "1.IH"[rule_format, of pat']) (use "1.prems" Cons pn in simp_all)
        show ?thesis
          unfolding step using IH nesc False Cons by (auto split: option.splits)
      qed
    qed
  qed
qed

lemma wildcard_free_True: "wildcard_free True pat"
  by (cases pat) simp_all

lemma wildcard_free_escape:
  assumes "0x2a \<notin> set pre"
  shows "wildcard_free ast (pre @ 0x5c # 0x2a # post)"
  using assms by (induction pre) simp_all

text \<open>Once the scan is beyond the path, it succeeds only through a wildcard.\<close>

lemma check_url_loop_over:
  assumes "url (decrypt_data pta) = done @ pat @ pad # tail"
    and "padding_val (decrypt_data pta) = pad" "pad \<notin> set pat" "pad \<noteq> 0x2a"
    and "length (uri r) < idx" "wildcard_free ast pat"
  shows "fst (check_url_loop r pta ast idx (length done)) \<noteq> Ret 0"
  using assms(1,3,5,6)
proof (induction pat arbitrary: "done" idx ast rule: length_induct)
  case (1 pat)
  note step = check_url_loop_pat[OF "1.prems"(1) assms(2) "1.prems"(2) assms(4), of r ast idx]
  show ?case
  proof (cases pat)
    case Nil
    then show ?thesis unfolding step using "1.prems"(3) by simp
  next
    case (Cons c pat')
    have pn: "pad \<notin> set pat'" using "1.prems"(2) Cons by simp
    show ?thesis
    proof (cases "c = 0x5c \<and> pat' \<noteq> [] \<and> hd pat' = 0x2a")
      case esc: True
      then obtain pat'' where p': "pat' = 0x2a # pat''" by (cases pat') auto
      have IH: "fst (check_url_loop r pta True (idx + 1) (length (done @ [c, 0x2a]))) \<noteq> Ret 0"
        by (rule "1.IH"[rule_format, of pat''])
           (use "1.prems" Cons p' pn wildcard_free_True in simp_all)
      show ?thesis
        unfolding step using IH esc Cons by (auto split: option.splits)
    next
      case nesc: False
      have nw: "\<not> (\<not> ast \<and> c = 0x2a)" using "1.prems"(4) Cons nesc by auto
      have wf: "wildcard_free ast pat'"
        using "1.prems"(4) Cons nesc wildcard_free_True by (cases ast) auto
      have IH: "fst (check_url_loop r pta ast (idx + 1) (length (done @ [c]))) \<noteq> Ret 0"
        by (rule "1.IH"[rule_format, of pat']) (use "1.prems" Cons pn wf in simp_all)
      show ?thesis
        unfolding step using IH nesc nw Cons by (auto split: option.splits)
    qed
  qed
qed
lemma unescape_Nil: "unescape [] = []"
  by (subst unescape.simps) simp

lemma unescape_Cons:
  "unescape (c # pat') =
     (if c = 0x5c \<and> pat' \<noteq> [] \<and> hd pat' = 0x2a then 0x2a # unescape (tl pat')
      else c # unescape pat')"
  by (subst unescape.simps) simp

lemma url_match_literal:
  "url_match True pat path \<longleftrightarrow> path = unescape pat"
proof (induction pat arbitrary: path rule: unescape.induct)
  case (1 pat)
  show ?case
  proof (cases pat)
    case Nil
    then show ?thesis by (simp add: url_match_Nil unescape_Nil)
  next
    case (Cons c pat')
    show ?thesis
    proof (cases "c = 0x5c \<and> pat' \<noteq> [] \<and> hd pat' = 0x2a")
      case True
      have IH: "\<And>p. url_match True (tl pat') p \<longleftrightarrow> p = unescape (tl pat')"
        by (rule "1.IH"(1)[OF Cons True])
      show ?thesis
      proof (cases path)
        case Nil
        with True Cons show ?thesis by (simp add: url_match_Cons unescape_Cons)
      next
        case (Cons y path')
        with True \<open>pat = c # pat'\<close> IH[of path'] show ?thesis
          by (simp add: url_match_Cons unescape_Cons)
      qed
    next
      case False
      have IH: "\<And>p. url_match True pat' p \<longleftrightarrow> p = unescape pat'"
        by (rule "1.IH"(2)[OF Cons False])
      show ?thesis
      proof (cases path)
        case Nil
        with False Cons show ?thesis by (simp add: url_match_Cons unescape_Cons)
      next
        case (Cons y path')
        with False \<open>pat = c # pat'\<close> IH[of path'] show ?thesis
          by (auto simp add: url_match_Cons unescape_Cons)
      qed
    qed
  qed
qed

lemma url_match_prefix:
  assumes "0x2a \<notin> set pre" "pre = [] \<or> last pre \<noteq> 0x5c \<or> q = [] \<or> hd q \<noteq> 0x2a"
  shows "url_match ast (pre @ q) path \<longleftrightarrow> (\<exists>rest. path = pre @ rest \<and> url_match ast q rest)"
  using assms
proof (induction pre arbitrary: path)
  case Nil
  then show ?case by simp
next
  case (Cons c pre)
  have ne: "\<not> (c = 0x5c \<and> pre @ q \<noteq> [] \<and> hd (pre @ q) = 0x2a)"
    using Cons.prems by (cases pre) (auto simp add: hd_append)
  have c: "c \<noteq> 0x2a" using Cons.prems by simp
  have IH: "\<And>p. url_match ast (pre @ q) p \<longleftrightarrow> (\<exists>rest. p = pre @ rest \<and> url_match ast q rest)"
    by (rule Cons.IH) (use Cons.prems in \<open>auto split: if_splits\<close>)
  show ?case
    using ne c IH by (cases path) (auto simp add: url_match_Cons)
qed

lemma unescape_no_backslash: "0x5c \<notin> set pat \<Longrightarrow> unescape pat = pat"
proof (induction pat)
  case Nil
  then show ?case by (simp add: unescape_Nil)
next
  case (Cons c pat)
  then show ?case by (simp add: unescape_Cons)
qed


lemma check_url_loop_match:
  assumes "url (decrypt_data pta) = done @ pat @ pad # tail"
    and "padding_val (decrypt_data pta) = pad" "pad \<notin> set pat" "pad \<noteq> 0x2a"
    and "uri r = udone @ path" "wildcard_free ast pat"
  shows "fst (check_url_loop r pta ast (length udone) (length done)) = Ret 0
           \<longleftrightarrow> url_match ast pat path"
  using assms(1,3,5,6)
proof (induction pat arbitrary: "done" udone path ast rule: length_induct)
  case (1 pat)
  note uri = "1.prems"(3)
  note step = check_url_loop_pat[OF "1.prems"(1) assms(2) "1.prems"(2) assms(4),
      of r ast "length udone"]
  show ?case
  proof (cases pat)
    case Nil
    then show ?thesis unfolding step using uri by (simp add: url_match_Nil)
  next
    case (Cons c pat')
    have pn: "pad \<notin> set pat'" using "1.prems"(2) Cons by simp
    have over: "fst (check_url_loop r pta a (length udone + 1) (length (done @ ds))) \<noteq> Ret 0"
      if "path = []" "url (decrypt_data pta) = (done @ ds) @ q @ pad # tail" "pad \<notin> set q"
        "wildcard_free a q" for a ds q
      by (rule check_url_loop_over[OF that(2) assms(2) that(3) assms(4) _ that(4)])
         (use uri that(1) in simp)
    show ?thesis
    proof (cases "c = 0x5c \<and> pat' \<noteq> [] \<and> hd pat' = 0x2a")
      case esc: True
      then obtain pat'' where p': "pat' = 0x2a # pat''" by (cases pat') auto
      have u2: "url (decrypt_data pta) = (done @ [c, 0x2a]) @ pat'' @ pad # tail"
        using "1.prems"(1) Cons p' by simp
      have pn2: "pad \<notin> set pat''" using pn p' by simp
      show ?thesis
      proof (cases path)
        case Nil
        have "fst (check_url_loop r pta True (length udone + 1) (length (done @ [c, 0x2a]))) \<noteq> Ret 0"
          by (rule over[OF Nil u2 pn2 wildcard_free_True])
        then show ?thesis
          unfolding step using esc Cons Nil by (auto simp add: url_match_Cons split: option.splits)
      next
        case pc: (Cons y path')
        have IH: "fst (check_url_loop r pta True (length (udone @ [y])) (length (done @ [c, 0x2a]))) = Ret 0
                     \<longleftrightarrow> url_match True pat'' path'"
          by (rule "1.IH"[rule_format, of pat'' _ _ _ True])
             (use u2 pn2 Cons p' uri pc wildcard_free_True in simp_all)
        have "uri_data r (length udone) = Some y" using uri pc by (intro uri_data_path) simp
        with IH esc Cons pc p' show ?thesis
          unfolding step by (auto simp add: url_match_Cons)
      qed
    next
      case nesc: False
      have nw: "\<not> (\<not> ast \<and> c = 0x2a)" using "1.prems"(4) Cons nesc by auto
      have wf: "wildcard_free ast pat'"
        using "1.prems"(4) Cons nesc wildcard_free_True by (cases ast) auto
      have u2: "url (decrypt_data pta) = (done @ [c]) @ pat' @ pad # tail"
        using "1.prems"(1) Cons by simp
      show ?thesis
      proof (cases path)
        case Nil
        have "fst (check_url_loop r pta ast (length udone + 1) (length (done @ [c]))) \<noteq> Ret 0"
          by (rule over[OF Nil u2 pn wf])
        then show ?thesis
          unfolding step using nesc nw Cons Nil
          by (auto simp add: url_match_Cons split: option.splits)
      next
        case pc: (Cons y path')
        have IH: "fst (check_url_loop r pta ast (length (udone @ [y])) (length (done @ [c]))) = Ret 0
                     \<longleftrightarrow> url_match ast pat' path'"
          by (rule "1.IH"[rule_format, of pat' _ _ _ ast])
             (use u2 pn Cons uri pc wf in simp_all)
        have "uri_data r (length udone) = Some y" using uri pc by (intro uri_data_path) simp
        with IH nesc nw Cons pc show ?thesis
          unfolding step by (auto simp add: url_match_Cons)
      qed
    qed
  qed
qed

text \<open>A stretch of the pattern with no \<open>*\<close> that the bytes at \<open>r->uri.data\<close> repeat,
  be they bytes of the path or bytes behind it.\<close>

lemma check_url_loop_prefix:
  assumes "url (decrypt_data pta) = done @ lit @ x # rest"
    and "padding_val (decrypt_data pta) = pad" "pad \<notin> set lit" "pad \<noteq> 0x2a"
    and "0x2a \<notin> set lit" "lit = [] \<or> last lit \<noteq> 0x5c \<or> x \<noteq> 0x2a"
    and "uri r @ uri_after r = mdone @ lit @ mrest"
  shows "check_url_loop r pta ast (length mdone) (length done)
           = check_url_loop r pta ast (length (mdone @ lit)) (length (done @ lit))"
  using assms(1,3,5,6,7)
proof (induction lit arbitrary: "done" mdone)
  case Nil
  then show ?case by simp
next
  case (Cons c lit)
  let ?u = "url (decrypt_data pta)"
  let ?wdx = "length done"
  have u: "?u = done @ c # (lit @ [x]) @ rest" using Cons.prems(1) by simp
  have lu: "\<not> length ?u \<le> ?wdx" "\<not> length ?u \<le> ?wdx + 1" using u by simp_all
  have c: "?u ! ?wdx = c" "c \<noteq> pad" "c \<noteq> 0x2a"
    using u Cons.prems(2,3) by (auto simp add: nth_append)
  have n1: "?u ! (?wdx + 1) = hd (lit @ [x])"
    using u by (cases lit) (simp_all add: nth_append)
  have ne: "\<not> (c = 0x5c \<and> ?u ! (?wdx + 1) = 0x2a)"
    using Cons.prems(3,4) unfolding n1 by (cases lit) auto
  have m: "uri_data r (length mdone) = Some c"
    by (rule uri_data_mem[of r mdone c "lit @ mrest"]) (use Cons.prems(5) in simp)
  have step: "check_url_loop r pta ast (length mdone) ?wdx
      = check_url_loop r pta ast (length (mdone @ [c])) (length (done @ [c]))"
    using lu c ne m assms(2)
    by (subst check_url_loop.simps) (auto simp add: Let_def)
  have "check_url_loop r pta ast (length (mdone @ [c])) (length (done @ [c]))
      = check_url_loop r pta ast (length ((mdone @ [c]) @ lit)) (length ((done @ [c]) @ lit))"
    by (rule Cons.IH) (use Cons.prems in \<open>auto split: if_splits\<close>)
  with step show ?case by simp
qed

lemma check_url_match:
  assumes "url (decrypt_data pta) = pat @ pad # tail" "padding_val (decrypt_data pta) = pad"
    and "pad \<notin> set pat" "1 \<le> pad" "pad \<le> 16" "wildcard_free False pat"
  shows "fst (ngx_http_pta_check_url r pta) = Ret 0 \<longleftrightarrow> url_match False pat (uri r)"
proof -
  have "pad \<noteq> 0x2a" using assms(5) by auto
  from check_url_loop_match[of pta "[]" pat pad tail r "[]" "uri r" False, OF _ assms(2,3) this]
    assms(1,6)
  have "fst (check_url_loop r pta False 0 0) = Ret 0 \<longleftrightarrow> url_match False pat (uri r)"
    by simp
  moreover have "\<not> (pad < 1 \<or> 16 < pad)"
    by (simp only: not_less de_Morgan_disj assms(4,5))
  ultimately show ?thesis
    by (simp add: ngx_http_pta_check_url_def assms(2))
qed

text \<open>The scan up to a wildcard that is met beyond a literal stretch of the pattern.\<close>

lemma check_url_to_wildcard:
  assumes "url (decrypt_data pta) = pre @ 0x2a # suf @ pad # tail"
    and "padding_val (decrypt_data pta) = pad" "1 \<le> pad" "pad \<le> 16"
    and "pad \<notin> set pre" "pad \<notin> set suf"
    and "0x2a \<notin> set pre" "pre = [] \<or> last pre \<noteq> 0x5c"
    and "uri r @ uri_after r = pre @ mrest"
  shows "ngx_http_pta_check_url r pta
           = ngx_http_pta_check_wildcard_url r pta (length pre) (length pre)"
proof -
  have p: "pad \<noteq> 0x2a" using assms(4) by auto
  have np: "\<not> (pad < 1 \<or> 16 < pad)"
    by (simp only: not_less de_Morgan_disj assms(3,4))
  have "check_url_loop r pta False (length ([] :: byte list)) (length ([] :: byte list))
      = check_url_loop r pta False (length ([] @ pre)) (length ([] @ pre))"
    by (rule check_url_loop_prefix[of pta "[]" pre "0x2a" "suf @ pad # tail" pad r "[]" mrest])
       (use assms p in simp_all)
  moreover have "check_url_loop r pta False (length pre) (length pre)
      = ngx_http_pta_check_wildcard_url r pta (length pre) (length pre)"
    using check_url_loop_pat[of pta pre "0x2a # suf" pad tail r False "length pre"]
      assms(1,2,6) p
    by simp
  ultimately show ?thesis
    using np by (simp add: ngx_http_pta_check_url_def assms(2))
qed

lemma check_url_wildcard_general:
  assumes "url (decrypt_data pta) = pre @ 0x2a # suf @ pad # tail"
    and "padding_val (decrypt_data pta) = pad" "1 \<le> pad" "pad \<le> 16"
    and "pad \<notin> set pre" "pad \<notin> set suf"
    and "0x2a \<notin> set pre" "pre = [] \<or> last pre \<noteq> 0x5c"
    and "uri r = pre @ rest" "0 \<notin> set rest" "length (uri r) < 2 ^ 64"
  shows "fst (ngx_http_pta_check_url r pta) = Ret 0 \<longleftrightarrow>
           suf = [] \<or> (length suf \<le> length rest \<and>
                        drop (length (uri r) - length suf) (uri r) = suf)"
proof -
  have m: "uri r @ uri_after r = pre @ (rest @ uri_after r)" using assms(9) by simp
  have "fst (ngx_http_pta_check_url r pta)
      = fst (ngx_http_pta_check_wildcard_url r pta (length pre) (length pre))"
    using check_url_to_wildcard[OF assms(1,2,3,4,5,6,7,8) m] by simp
  also have "\<dots> = (if suf = [] \<or> (length suf \<le> length rest \<and>
           ngx_strncmp (drop (length rest - length suf) rest) suf (length suf) = 0)
      then Ret 0 else Ret 1)"
    by (rule check_wildcard_url_inside[OF assms(1,2,6,9,11)])
  finally have "fst (ngx_http_pta_check_url r pta) = Ret 0 \<longleftrightarrow>
      suf = [] \<or> (length suf \<le> length rest \<and>
        ngx_strncmp (drop (length rest - length suf) rest) suf (length suf) = 0)"
    by simp
  also have "\<dots> \<longleftrightarrow> suf = [] \<or> (length suf \<le> length rest \<and>
        drop (length rest - length suf) rest = suf)"
  proof (cases "length suf \<le> length rest")
    case True
    have "length (drop (length rest - length suf) rest) = length suf" using True by simp
    moreover have "0 \<notin> set (drop (length rest - length suf) rest)"
      using assms(10) by (meson in_set_dropD)
    ultimately show ?thesis using ngx_strncmp_eq by blast
  next
    case False
    then show ?thesis by simp
  qed
  also have "\<dots> \<longleftrightarrow> suf = [] \<or> (length suf \<le> length rest \<and>
        drop (length (uri r) - length suf) (uri r) = suf)"
    using assms(9) by auto
  finally show ?thesis .
qed

lemma check_url_escape_general:
  assumes "url (decrypt_data pta) = pre @ 0x5c # 0x2a # post @ pad # tail"
    and "padding_val (decrypt_data pta) = pad" "1 \<le> pad" "pad \<le> 16"
    and "pad \<notin> set pre" "pad \<notin> set post"
    and "0x2a \<notin> set pre" "length (uri r) < 2 ^ 64"
  shows "fst (ngx_http_pta_check_url r pta) = Ret 0 \<longleftrightarrow> uri r = pre @ 0x2a # unescape post"
proof -
  have pad2: "pad \<noteq> 0x2a" "pad \<noteq> 0x5c" using assms(4) by auto
  have u: "url (decrypt_data pta) = (pre @ 0x5c # 0x2a # post) @ pad # tail"
    using assms(1) by simp
  have pn: "pad \<notin> set (pre @ 0x5c # 0x2a # post)" using assms(5,6) pad2 by simp
  have wf: "wildcard_free False (pre @ 0x5c # 0x2a # post)"
    using assms(7) by (rule wildcard_free_escape)
  have "fst (ngx_http_pta_check_url r pta) = Ret 0
          \<longleftrightarrow> url_match False (pre @ 0x5c # 0x2a # post) (uri r)"
    using check_url_match[OF u assms(2) pn assms(3,4) wf] by simp
  also have "\<dots> \<longleftrightarrow> (\<exists>rest. uri r = pre @ rest \<and> url_match False (0x5c # 0x2a # post) rest)"
    using url_match_prefix[of pre "0x5c # 0x2a # post" False "uri r"] assms(7) by simp
  also have "\<dots> \<longleftrightarrow> (\<exists>rest. uri r = pre @ rest \<and> rest = 0x2a # unescape post)"
  proof -
    have "\<And>rest. url_match False (0x5c # 0x2a # post) rest \<longleftrightarrow> rest = 0x2a # unescape post"
      subgoal for rest
        by (cases rest) (auto simp add: url_match_Cons url_match_literal)
      done
    then show ?thesis by simp
  qed
  finally show ?thesis by auto
qed


lemma plain_with_url_fields:
  assumes "0 < pad"
  shows "url (decrypt_data (plain_pta pta (plain_with_url pat pad)))
           = pat @ of_nat pad # replicate (pad - 1) (of_nat pad)"
    and "padding_val (decrypt_data (plain_pta pta (plain_with_url pat pad))) = of_nat pad"
proof -
  obtain k where k: "pad = Suc k" using assms by (cases pad) auto
  show "url (decrypt_data (plain_pta pta (plain_with_url pat pad)))
           = pat @ of_nat pad # replicate (pad - 1) (of_nat pad)"
    by (simp add: plain_pta_fields plain_with_url_def k)
  have "length (plain_with_url pat pad) - 1 = (12 + length pat) + (pad - 1)"
    using assms by (simp add: plain_with_url_def)
  moreover have "plain_with_url pat pad = (replicate 12 0 @ pat) @ replicate pad (of_nat pad)"
    by (simp add: plain_with_url_def)
  moreover have "length (replicate 12 (0::byte) @ pat) = 12 + length pat" by simp
  ultimately have "plain_with_url pat pad ! (length (plain_with_url pat pad) - 1)
      = replicate pad (of_nat pad) ! (pad - 1)"
    by (metis nth_append_length_plus)
  also have "\<dots> = of_nat pad" using assms by (intro nth_replicate) simp
  finally show "padding_val (decrypt_data (plain_pta pta (plain_with_url pat pad))) = of_nat pad"
    by (simp add: plain_pta_fields)
qed

lemma uri_request_for: "uri (request_for path) = path"
  by (simp add: request_for_def)


text \<open>The examples of spec 4.6 for the wildcard.\<close>

lemma check_url_wildcard_examples:
  "fst (ngx_http_pta_check_url (request_for (bytes_of ''/videos/abc123''))
            (plain_pta pta_zero (plain_with_url (bytes_of ''/videos/*'') 11))) = Ret 0"
  "fst (ngx_http_pta_check_url (request_for (bytes_of ''/a/foo.ext''))
            (plain_pta pta_zero (plain_with_url (bytes_of ''/a/*ext'') 13))) = Ret 0"
  "fst (ngx_http_pta_check_url (request_for (bytes_of ''/a/foo.exd''))
            (plain_pta pta_zero (plain_with_url (bytes_of ''/a/*ext'') 13))) \<noteq> Ret 0"
proof -
  let ?pta = "plain_pta pta_zero (plain_with_url (bytes_of ''/videos/*'') 11)"
  let ?r = "request_for (bytes_of ''/videos/abc123'')"
  have f: "url (decrypt_data ?pta) = bytes_of ''/videos/'' @ 0x2a # [] @ 11 # replicate 10 11"
    "padding_val (decrypt_data ?pta) = 11"
    using plain_with_url_fields[of 11 pta_zero "bytes_of ''/videos/*''"]
    by (simp_all add: bytes_of_def)
  have "fst (ngx_http_pta_check_url ?r ?pta) = Ret 0
     \<longleftrightarrow> [] = ([]:: byte list) \<or> (length ([]:: byte list) \<le> length (bytes_of ''abc123'') \<and>
           drop (length (uri ?r) - length ([]:: byte list)) (uri ?r) = [])"
    by (rule check_url_wildcard_general[OF f]) (simp_all add: bytes_of_def uri_request_for)
  then show "fst (ngx_http_pta_check_url ?r ?pta) = Ret 0" by simp
next
  let ?pta = "plain_pta pta_zero (plain_with_url (bytes_of ''/a/*ext'') 13)"
  let ?r = "request_for (bytes_of ''/a/foo.ext'')"
  have f: "url (decrypt_data ?pta) = bytes_of ''/a/'' @ 0x2a # bytes_of ''ext'' @ 13 # replicate 12 13"
    "padding_val (decrypt_data ?pta) = 13"
    using plain_with_url_fields[of 13 pta_zero "bytes_of ''/a/*ext''"]
    by (simp_all add: bytes_of_def)
  have "fst (ngx_http_pta_check_url ?r ?pta) = Ret 0
     \<longleftrightarrow> bytes_of ''ext'' = [] \<or> (length (bytes_of ''ext'') \<le> length (bytes_of ''foo.ext'') \<and>
           drop (length (uri ?r) - length (bytes_of ''ext'')) (uri ?r) = bytes_of ''ext'')"
    by (rule check_url_wildcard_general[OF f]) (simp_all add: bytes_of_def uri_request_for)
  then show "fst (ngx_http_pta_check_url ?r ?pta) = Ret 0"
    by (simp add: bytes_of_def uri_request_for)
next
  let ?pta = "plain_pta pta_zero (plain_with_url (bytes_of ''/a/*ext'') 13)"
  let ?r = "request_for (bytes_of ''/a/foo.exd'')"
  have f: "url (decrypt_data ?pta) = bytes_of ''/a/'' @ 0x2a # bytes_of ''ext'' @ 13 # replicate 12 13"
    "padding_val (decrypt_data ?pta) = 13"
    using plain_with_url_fields[of 13 pta_zero "bytes_of ''/a/*ext''"]
    by (simp_all add: bytes_of_def)
  have "fst (ngx_http_pta_check_url ?r ?pta) = Ret 0
     \<longleftrightarrow> bytes_of ''ext'' = [] \<or> (length (bytes_of ''ext'') \<le> length (bytes_of ''foo.exd'') \<and>
           drop (length (uri ?r) - length (bytes_of ''ext'')) (uri ?r) = bytes_of ''ext'')"
    by (rule check_url_wildcard_general[OF f]) (simp_all add: bytes_of_def uri_request_for)
  then show "fst (ngx_http_pta_check_url ?r ?pta) \<noteq> Ret 0"
    by (simp add: bytes_of_def uri_request_for)
qed

text \<open>
  Claim C3.  Where the wildcard is met with the scan still inside the path, the code
  follows the suffix rule of the claim (lemma \<open>check_url_wildcard_general\<close>, and the
  examples of the claim in lemma \<open>check_url_wildcard_examples\<close>).  The scan in front of
  the wildcard reads \<open>r->uri.data[idx]\<close> with no test against \<open>r->uri.len\<close>, though,
  and \<open>r->uri.len - idx\<close> wraps.  For the request \<open>GET /a?x HTTP/1.1\<close> and the pattern
  \<open>/a?*a\<close> the prefix \<open>/a?\<close> is matched beyond the end of the path \<open>/a\<close>: the path
  has no byte behind the matched prefix, the suffix \<open>a\<close> needs one, the rule of the
  claim gives a mismatch, and the code returns 0, a match.
\<close>

theorem check_url_wildcard_beyond_path:
  "uri request_a_query = bytes_of ''/a''
   \<and> uri_after request_a_query = bytes_of ''?x HTTP/1.1''
   \<and> \<not> url_match False (bytes_of ''/a?*a'') (uri request_a_query)
   \<and> fst (ngx_http_pta_check_url request_a_query
            (plain_pta pta_zero (plain_with_url (bytes_of ''/a?*a'') 15))) = Ret 0"
proof -
  let ?pta = "plain_pta pta_zero (plain_with_url (bytes_of ''/a?*a'') 15)"
  let ?r = request_a_query
  have r: "uri ?r = bytes_of ''/a''" "uri_after ?r = bytes_of ''?x HTTP/1.1''"
    "uri_before ?r = bytes_of ''GET ''"
    by (simp_all add: request_a_query_def)
  have f: "url (decrypt_data ?pta) = bytes_of ''/a?'' @ 0x2a # bytes_of ''a'' @ 15 # replicate 14 15"
    "padding_val (decrypt_data ?pta) = 15"
    using plain_with_url_fields[of 15 pta_zero "bytes_of ''/a?*a''"]
    by (simp_all add: bytes_of_def)
  have m: "uri ?r @ uri_after ?r = bytes_of ''/a?'' @ bytes_of ''x HTTP/1.1''"
    by (simp add: r bytes_of_def)
  have "ngx_http_pta_check_url ?r ?pta
      = ngx_http_pta_check_wildcard_url ?r ?pta (length (bytes_of ''/a?'')) (length (bytes_of ''/a?''))"
    by (rule check_url_to_wildcard[OF f _ _ _ _ _ _ m]) (simp_all add: bytes_of_def)
  moreover have "fst (ngx_http_pta_check_wildcard_url ?r ?pta (length (bytes_of ''/a?''))
      (length (bytes_of ''/a?''))) = Ret 0"
  proof -
    have n: "15 \<notin> set (bytes_of ''a'')" by (simp add: bytes_of_def)
    note w = check_wildcard_url_eval[OF f n, of ?r "length (bytes_of ''/a?'')"]
    have s: "(length (uri ?r) + 2 ^ 64 - length (bytes_of ''/a?'')) mod 2 ^ 64
        = 2 ^ 64 - 1"
      by (simp add: r bytes_of_def)
    have b: "drop (length (uri_before ?r) + length (uri ?r) - length (bytes_of ''a''))
        (uri_before ?r @ uri ?r) = bytes_of ''a''"
      by (simp add: r bytes_of_def)
    have c: "ngx_strncmp (bytes_of ''a'') (bytes_of ''a'') (length (bytes_of ''a'')) = 0"
      by (simp add: bytes_of_def byte_at_def)
    have l: "length (bytes_of ''a'') = 1" "bytes_of ''a'' \<noteq> []"
      "\<not> length (uri_before ?r) + length (uri ?r) < 1"
      by (simp_all add: bytes_of_def r)
    show ?thesis
      unfolding w s b c using l by simp
  qed
  moreover have "\<not> url_match False (bytes_of ''/a?*a'') (uri ?r)"
    by (simp add: r bytes_of_def url_match_Cons url_match_Nil)
  ultimately show ?thesis using r by simp
qed

text \<open>
  Claim C4.  A \<open>\*\<close> in the pattern matches the character \<open>*\<close> of the path, and from
  there on the wildcard is off for the rest of the pattern: with no \<open>*\<close> in front of
  the first \<open>\*\<close>, the match succeeds exactly when the path is the part in front,
  a \<open>*\<close>, and the rest of the pattern with every \<open>\*\<close> read as \<open>*\<close> and every other
  byte, a later \<open>*\<close> too, read as itself.  Pattern \<open>/a/\*literal\<close> matches the path
  \<open>/a/*literal\<close> and no other.
\<close>

theorem check_url_escape_literal:
  "(url (decrypt_data pta) = pre @ 0x5c # 0x2a # post @ pad # tail
      \<and> padding_val (decrypt_data pta) = pad \<and> 1 \<le> pad \<and> pad \<le> 16
      \<and> pad \<notin> set pre \<and> pad \<notin> set post \<and> 0x2a \<notin> set pre
      \<and> length (uri r) < 2 ^ 64
    \<longrightarrow> (fst (ngx_http_pta_check_url r pta) = Ret 0 \<longleftrightarrow> uri r = pre @ 0x2a # unescape post)
        \<and> (0x5c \<notin> set post \<longrightarrow>
             (fst (ngx_http_pta_check_url r pta) = Ret 0 \<longleftrightarrow> uri r = pre @ 0x2a # post)))
   \<and> (\<forall>path. length path < 2 ^ 64 \<longrightarrow>
         (fst (ngx_http_pta_check_url (request_for path)
                (plain_pta pta_zero
                   (plain_with_url (bytes_of ''/a/'' @ 0x5c # bytes_of ''*literal'') 8))) = Ret 0
            \<longleftrightarrow> path = bytes_of ''/a/*literal''))"
proof (intro conjI impI allI)
  assume h: "url (decrypt_data pta) = pre @ 0x5c # 0x2a # post @ pad # tail
      \<and> padding_val (decrypt_data pta) = pad \<and> 1 \<le> pad \<and> pad \<le> 16
      \<and> pad \<notin> set pre \<and> pad \<notin> set post \<and> 0x2a \<notin> set pre
      \<and> length (uri r) < 2 ^ 64"
  then show g: "fst (ngx_http_pta_check_url r pta) = Ret 0 \<longleftrightarrow> uri r = pre @ 0x2a # unescape post"
    using check_url_escape_general[of pta pre post pad tail r] by blast
  assume "0x5c \<notin> set post"
  then show "fst (ngx_http_pta_check_url r pta) = Ret 0 \<longleftrightarrow> uri r = pre @ 0x2a # post"
    using g by (simp add: unescape_no_backslash)
next
  fix path :: "byte list"
  assume l: "length path < 2 ^ 64"
  let ?pta = "plain_pta pta_zero (plain_with_url (bytes_of ''/a/'' @ 0x5c # bytes_of ''*literal'') 8)"
  have f: "url (decrypt_data ?pta)
             = bytes_of ''/a/'' @ 0x5c # 0x2a # bytes_of ''literal'' @ 8 # replicate 7 8"
    "padding_val (decrypt_data ?pta) = 8"
    using plain_with_url_fields[of 8 pta_zero "bytes_of ''/a/'' @ 0x5c # bytes_of ''*literal''"]
    by (simp_all add: bytes_of_def)
  have u: "unescape (bytes_of ''literal'') = bytes_of ''literal''"
    by (rule unescape_no_backslash) (simp add: bytes_of_def)
  have "fst (ngx_http_pta_check_url (request_for path) ?pta) = Ret 0
      \<longleftrightarrow> uri (request_for path) = bytes_of ''/a/'' @ 0x2a # unescape (bytes_of ''literal'')"
    by (rule check_url_escape_general[OF f]) (use l in \<open>simp_all add: bytes_of_def uri_request_for\<close>)
  then show "fst (ngx_http_pta_check_url (request_for path) ?pta) = Ret 0
      \<longleftrightarrow> path = bytes_of ''/a/*literal''"
    unfolding u by (simp add: uri_request_for bytes_of_def)
qed

theorem check_url_escape_literal_witness:
  "url (decrypt_data (plain_pta pta_zero
          (plain_with_url (bytes_of ''/x'' @ 0x5c # bytes_of ''*y*z'') 9)))
       = bytes_of ''/x'' @ 0x5c # 0x2a # bytes_of ''y*z'' @ 9 # replicate 8 9
   \<and> padding_val (decrypt_data (plain_pta pta_zero
          (plain_with_url (bytes_of ''/x'' @ 0x5c # bytes_of ''*y*z'') 9))) = 9
   \<and> (1 :: byte) \<le> 9 \<and> (9 :: byte) \<le> 16
   \<and> 9 \<notin> set (bytes_of ''/x'') \<and> 9 \<notin> set (bytes_of ''y*z'')
   \<and> 0x2a \<notin> set (bytes_of ''/x'')
   \<and> length (uri (request_for (bytes_of ''/x*y*z''))) < 2 ^ 64
   \<and> 0x5c \<notin> set (bytes_of ''y*z'')
   \<and> fst (ngx_http_pta_check_url (request_for (bytes_of ''/x*y*z''))
            (plain_pta pta_zero
               (plain_with_url (bytes_of ''/x'' @ 0x5c # bytes_of ''*y*z'') 9))) = Ret 0"
proof -
  let ?pta = "plain_pta pta_zero (plain_with_url (bytes_of ''/x'' @ 0x5c # bytes_of ''*y*z'') 9)"
  let ?r = "request_for (bytes_of ''/x*y*z'')"
  have f: "url (decrypt_data ?pta)
       = bytes_of ''/x'' @ 0x5c # 0x2a # bytes_of ''y*z'' @ 9 # replicate 8 9"
    "padding_val (decrypt_data ?pta) = 9"
    using plain_with_url_fields[of 9 pta_zero "bytes_of ''/x'' @ 0x5c # bytes_of ''*y*z''"]
    by (simp_all add: bytes_of_def)
  have h: "(1 :: byte) \<le> 9" "(9 :: byte) \<le> 16"
    "9 \<notin> set (bytes_of ''/x'')" "9 \<notin> set (bytes_of ''y*z'')"
    "0x2a \<notin> set (bytes_of ''/x'')" "length (uri ?r) < 2 ^ 64" "0x5c \<notin> set (bytes_of ''y*z'')"
    by (simp_all add: bytes_of_def uri_request_for)
  have c: "uri ?r = bytes_of ''/x'' @ 0x2a # bytes_of ''y*z''"
    by (simp add: bytes_of_def uri_request_for)
  from check_url_escape_literal[where pta = ?pta and pre = "bytes_of ''/x''"
      and post = "bytes_of ''y*z''" and pad = 9 and tail = "replicate 8 9" and r = ?r] f h c
  have "fst (ngx_http_pta_check_url ?r ?pta) = Ret 0" by blast
  with f h show ?thesis by blast
qed

lemma last_in_drop:
  assumes "beg < length u"
  shows "\<exists>s tail. drop beg u = s @ last u # tail \<and> last u \<notin> set s"
proof -
  have "drop beg u \<noteq> []" using assms by simp
  then have "last (drop beg u) \<in> set (drop beg u)" by (rule last_in_set)
  moreover have "last (drop beg u) = last u" using assms by simp
  ultimately have "last u \<in> set (drop beg u)" by simp
  from split_list_first[OF this] show ?thesis by blast
qed

lemma wildcard_len_in_bounds:
  assumes "beg < length u"
  shows "\<exists>n. wildcard_len u (last u) beg 0 = Some n \<and> beg + n < length u"
proof -
  from last_in_drop[OF assms] obtain s tail where
    d: "drop beg u = s @ last u # tail" "last u \<notin> set s" by blast
  have "u = take beg u @ s @ last u # tail"
    using d(1) by (metis append_take_drop_id)
  from wildcard_len_found[OF this d(2)] assms
  have "wildcard_len u (last u) beg 0 = Some (length s)" by simp
  moreover have "beg + length s < length u"
  proof -
    have "length (drop beg u) = length s + 1 + length tail" using d(1) by simp
    then show ?thesis using assms by simp
  qed
  ultimately show ?thesis by blast
qed

lemma check_wildcard_url_in_bounds:
  assumes "wdx + 1 < length (url (decrypt_data pta))"
    and "padding_val (decrypt_data pta) = last (url (decrypt_data pta))"
  shows "fst (ngx_http_pta_check_wildcard_url r pta wdx idx) \<noteq> Fault PlainOutOfBounds"
proof -
  from wildcard_len_in_bounds[OF assms(1)] obtain n where
    "wildcard_len (url (decrypt_data pta)) (last (url (decrypt_data pta))) (wdx + 1) 0 = Some n"
    by blast
  then show ?thesis
    using assms(2) by (simp add: ngx_http_pta_check_wildcard_url_def Let_def)
qed

lemma check_url_in_bounds:
  assumes "url (decrypt_data pta) \<noteq> []"
    and "padding_val (decrypt_data pta) = last (url (decrypt_data pta))"
  shows "fst (ngx_http_pta_check_url r pta) \<noteq> Fault PlainOutOfBounds"
proof (cases "padding_val (decrypt_data pta) < 1 \<or> 16 < padding_val (decrypt_data pta)")
  case True
  then show ?thesis by (auto simp add: ngx_http_pta_check_url_def)
next
  case False
  let ?u = "url (decrypt_data pta)" and ?pad = "padding_val (decrypt_data pta)"
  have "?pad \<le> 16" using False by (simp add: not_less)
  then have p: "?pad \<noteq> 0x2a" by auto
  have "0 < length ?u" using assms(1) by simp
  from last_in_drop[OF this] assms(2) obtain s tail where
    d: "?u = [] @ s @ ?pad # tail" "?pad \<notin> set s" by auto
  from check_url_loop_range[OF d(1) refl d(2) p, of r False 0]
  have "fst (check_url_loop r pta False 0 0) \<in> {Ret 0, Ret 1, Fault UriOutOfBounds}" by simp
  then show ?thesis using False by (auto simp add: ngx_http_pta_check_url_def)
qed

lemma plain_pta_last:
  assumes "12 < length out"
  shows "url (decrypt_data (plain_pta pta out)) \<noteq> []"
    and "padding_val (decrypt_data (plain_pta pta out)) = last (url (decrypt_data (plain_pta pta out)))"
proof -
  show "url (decrypt_data (plain_pta pta out)) \<noteq> []"
    using assms by (simp add: plain_pta_fields)
  have "out \<noteq> []" using assms by auto
  then have "out ! (length out - 1) = last out" by (simp add: last_conv_nth)
  moreover have "last (drop 12 out) = last out" using assms by simp
  ultimately show "padding_val (decrypt_data (plain_pta pta out))
      = last (url (decrypt_data (plain_pta pta out)))"
    by (simp add: plain_pta_fields)
qed

text \<open>
  Claim C10.  Every decrypted buffer \<open>out\<close> has at least 16 bytes, so \<open>url = &out[12]\<close>
  lies inside it, and \<open>padding_val\<close> is its last byte.  Then neither scan for the
  sentinel leaves the buffer: the matcher never ends in \<open>PlainOutOfBounds\<close>, the
  wildcard scan started inside the buffer neither, and that scan stops at an index
  inside the buffer.
\<close>

theorem url_scans_in_bounds:
  "12 < length out \<longrightarrow>
     fst (ngx_http_pta_check_url r (plain_pta pta out)) \<noteq> Fault PlainOutOfBounds
   \<and> (\<forall>wdx idx. wdx + 1 < length (url (decrypt_data (plain_pta pta out))) \<longrightarrow>
         fst (ngx_http_pta_check_wildcard_url r (plain_pta pta out) wdx idx)
           \<noteq> Fault PlainOutOfBounds)
   \<and> (\<forall>beg. beg < length (url (decrypt_data (plain_pta pta out))) \<longrightarrow>
         (\<exists>n. wildcard_len (url (decrypt_data (plain_pta pta out)))
                 (padding_val (decrypt_data (plain_pta pta out))) beg 0 = Some n
              \<and> beg + n < length (url (decrypt_data (plain_pta pta out)))))"
proof (intro impI conjI allI)
  assume l: "12 < length out"
  note f = plain_pta_last[OF l, of pta]
  show "fst (ngx_http_pta_check_url r (plain_pta pta out)) \<noteq> Fault PlainOutOfBounds"
    by (rule check_url_in_bounds[OF f])
  show "fst (ngx_http_pta_check_wildcard_url r (plain_pta pta out) wdx idx)
           \<noteq> Fault PlainOutOfBounds"
    if "wdx + 1 < length (url (decrypt_data (plain_pta pta out)))" for wdx idx
    by (rule check_wildcard_url_in_bounds[OF that f(2)])
  show "\<exists>n. wildcard_len (url (decrypt_data (plain_pta pta out)))
                 (padding_val (decrypt_data (plain_pta pta out))) beg 0 = Some n
              \<and> beg + n < length (url (decrypt_data (plain_pta pta out)))"
    if "beg < length (url (decrypt_data (plain_pta pta out)))" for beg
    unfolding f(2) by (rule wildcard_len_in_bounds[OF that])
qed

theorem url_scans_in_bounds_witness:
  "12 < length (plain_with_url (bytes_of ''/a/*ext'') 13)
   \<and> fst (ngx_http_pta_check_url (request_for (bytes_of ''/a''))
            (plain_pta pta_zero (plain_with_url (bytes_of ''/a/*ext'') 13)))
        \<noteq> Fault PlainOutOfBounds"
proof -
  have "12 < length (plain_with_url (bytes_of ''/a/*ext'') 13)"
    by (simp add: plain_with_url_def)
  with url_scans_in_bounds[of "plain_with_url (bytes_of ''/a/*ext'') 13"
      "request_for (bytes_of ''/a'')" pta_zero]
  show ?thesis by blast
qed


section \<open>One candidate: the code against the specification\<close>

lemma length_EVP_decrypt: "EVP_decrypt D key iv data = Some out \<Longrightarrow> length out = length data"
  by (auto simp add: EVP_decrypt_def split: if_splits option.splits)

lemma EVP_decrypt_blocks: "EVP_decrypt D key iv data = Some out \<Longrightarrow> length data mod 16 = 0"
  by (auto simp add: EVP_decrypt_def split: if_splits option.splits)

lemma check_crc_depends:
  assumes "decrypt_data p = decrypt_data q" "encrypt_data_len p = encrypt_data_len q"
  shows "ngx_http_pta_check_crc p = ngx_http_pta_check_crc q"
proof -
  have e: "url_len_of p = url_len_of q" using assms by (simp add: url_len_of_def)
  show ?thesis
    unfolding ngx_http_pta_check_crc_def assms(1) e by (rule refl)
qed

lemma check_deadline_depends:
  assumes "decrypt_data p = decrypt_data q"
  shows "ngx_http_pta_check_deadline now p = ngx_http_pta_check_deadline now q"
  using assms by (simp add: ngx_http_pta_check_deadline_def)

lemma check_wildcard_url_depends:
  assumes "decrypt_data p = decrypt_data q"
  shows "ngx_http_pta_check_wildcard_url r p wdx idx = ngx_http_pta_check_wildcard_url r q wdx idx"
  using assms by (simp add: ngx_http_pta_check_wildcard_url_def)

lemma check_url_loop_depends:
  assumes "decrypt_data p = decrypt_data q"
  shows "check_url_loop r p ast idx wdx = check_url_loop r q ast idx wdx"
proof (induction "length (url (decrypt_data q)) - wdx" arbitrary: ast idx wdx rule: less_induct)
  case less
  have IH: "check_url_loop r p a i w = check_url_loop r q a i w"
    if "wdx < w" "wdx < length (url (decrypt_data q))" for a i w
    by (rule less) (use that in arith)
  note w = check_wildcard_url_depends[OF assms]
  show ?case
    apply (subst check_url_loop.simps)
    apply (subst (2) check_url_loop.simps)
    unfolding assms Let_def w
    by (auto simp add: IH not_le split: option.splits)
qed

lemma check_url_depends:
  assumes "decrypt_data p = decrypt_data q"
  shows "ngx_http_pta_check_url r p = ngx_http_pta_check_url r q"
  using assms check_url_loop_depends[OF assms] by (simp add: ngx_http_pta_check_url_def)

lemma decrypt_key_pass_plain:
  assumes "encrypt_data_len p = length (encrypt_data p)" "encrypt_data p \<noteq> []"
  shows "decrypt_key_pass D srv p idx =
     (case key_plain D srv (encrypt_data p) idx of
        KP_Skip \<Rightarrow> Continue p
      | KP_Fail \<Rightarrow> GotoFail p
      | KP_Reject out \<Rightarrow> Continue (p\<lparr>decrypt_data := set_decrypt_data out (length out)\<rparr>)
      | KP_Accept out \<Rightarrow> Decrypted (p\<lparr>decrypt_data := set_decrypt_data out (length out)\<rparr>)
      | KP_Fault f \<Rightarrow> decrypt_key_pass D srv p idx)"
proof -
  have crc: "ngx_http_pta_check_crc (p\<lparr>decrypt_data := set_decrypt_data out (length (encrypt_data p))\<rparr>)
        = ngx_http_pta_check_crc (plain_pta pta_zero out)"
    if "length out = length (encrypt_data p)" for out
    by (rule check_crc_depends) (simp_all add: plain_pta_def that assms)
  show ?thesis
    using assms
    by (auto simp add: decrypt_key_pass_def key_plain_def Let_def crc length_EVP_decrypt
        split: option.splits ret.splits)
qed

lemma decrypt_key_pass_fault:
  assumes "encrypt_data_len p = length (encrypt_data p)" "encrypt_data p \<noteq> []"
    and "key_plain D srv (encrypt_data p) idx = KP_Fault f"
  shows "\<exists>d. decrypt_key_pass D srv p idx = KeyFault f (p\<lparr>decrypt_data := d\<rparr>)"
proof -
  let ?key = "ngx_http_pta_hex2bin (if idx = 0 then key_1st srv else key_2nd srv)"
  let ?iv = "ngx_http_pta_hex2bin (if idx = 0 then iv_1st srv else iv_2nd srv)"
  from assms(3) obtain key iv out where
    k: "?key = Some key" "?iv = Some iv" "EVP_decrypt D key iv (encrypt_data p) = Some out"
    and c: "(length out < 12 \<and> f = PlainOutOfBounds)
          \<or> (\<not> length out < 12 \<and> ngx_http_pta_check_crc (plain_pta pta_zero out) = Fault f)"
    unfolding key_plain_def
    by (cases ?key; cases ?iv; simp)
       (auto split: option.splits if_splits ret.splits)
  have lo: "length out = length (encrypt_data p)" using k(3) by (rule length_EVP_decrypt)
  have crc: "ngx_http_pta_check_crc (p\<lparr>decrypt_data := set_decrypt_data out (length (encrypt_data p))\<rparr>)
        = ngx_http_pta_check_crc (plain_pta pta_zero out)"
    by (rule check_crc_depends) (simp_all add: plain_pta_def lo assms)
  from c show ?thesis
  proof
    assume "length out < 12 \<and> f = PlainOutOfBounds"
    then have "decrypt_key_pass D srv p idx = KeyFault f (p\<lparr>decrypt_data := decrypt_data p\<rparr>)"
      using k assms(1) by (simp add: decrypt_key_pass_def)
    then show ?thesis by blast
  next
    assume "\<not> length out < 12 \<and> ngx_http_pta_check_crc (plain_pta pta_zero out) = Fault f"
    then have "decrypt_key_pass D srv p idx
        = KeyFault f (p\<lparr>decrypt_data := set_decrypt_data out (length (encrypt_data p))\<rparr>)"
      using k assms(1,2) crc by (simp add: decrypt_key_pass_def Let_def)
    then show ?thesis by blast
  qed
qed

lemma decrypt_key_loop_2: "decrypt_key_loop D srv p (Suc (Suc 0)) = Continue p"
  by (subst decrypt_key_loop.simps) simp

lemma decrypt_key_loop_1:
  "decrypt_key_loop D srv p (Suc 0) =
     (case decrypt_key_pass D srv p (Suc 0) of Continue p2 \<Rightarrow> Continue p2 | res \<Rightarrow> res)"
  by (subst decrypt_key_loop.simps) (simp add: decrypt_key_loop_2 split: key_pass.splits)

lemma decrypt_key_loop_0:
  "decrypt_key_loop D srv p 0 =
     (case decrypt_key_pass D srv p 0 of
        Continue p1 \<Rightarrow>
          (case decrypt_key_pass D srv p1 (Suc 0) of
             Continue p2 \<Rightarrow> Continue p2
           | res \<Rightarrow> res)
      | res \<Rightarrow> res)"
  by (subst decrypt_key_loop.simps) (simp add: decrypt_key_loop_1 split: key_pass.splits)



lemma key_pass_by_plain:
  assumes "encrypt_data_len q = length (encrypt_data q)" "encrypt_data q \<noteq> []"
  shows "key_plain D srv (encrypt_data q) idx = KP_Skip \<Longrightarrow> decrypt_key_pass D srv q idx = Continue q"
    and "key_plain D srv (encrypt_data q) idx = KP_Fail \<Longrightarrow> decrypt_key_pass D srv q idx = GotoFail q"
    and "key_plain D srv (encrypt_data q) idx = KP_Reject out \<Longrightarrow>
           decrypt_key_pass D srv q idx = Continue (q\<lparr>decrypt_data := set_decrypt_data out (length out)\<rparr>)"
    and "key_plain D srv (encrypt_data q) idx = KP_Accept out \<Longrightarrow>
           decrypt_key_pass D srv q idx = Decrypted (q\<lparr>decrypt_data := set_decrypt_data out (length out)\<rparr>)"
  using decrypt_key_pass_plain[OF assms, of D srv idx] by simp_all

lemma decrypt_key_loop_plain:
  assumes "encrypt_data_len p = length (encrypt_data p)" "encrypt_data p \<noteq> []"
  shows "case keys_plain D srv (encrypt_data p) of
           KP_Accept out \<Rightarrow>
             decrypt_key_loop D srv p 0
               = Decrypted (p\<lparr>decrypt_data := set_decrypt_data out (length out)\<rparr>)
         | KP_Fail \<Rightarrow> (\<exists>d. decrypt_key_loop D srv p 0 = GotoFail (p\<lparr>decrypt_data := d\<rparr>))
         | KP_Fault f \<Rightarrow> (\<exists>d. decrypt_key_loop D srv p 0 = KeyFault f (p\<lparr>decrypt_data := d\<rparr>))
         | KP_Skip \<Rightarrow> (\<exists>d. decrypt_key_loop D srv p 0 = Continue (p\<lparr>decrypt_data := d\<rparr>))
         | KP_Reject out \<Rightarrow> (\<exists>d. decrypt_key_loop D srv p 0 = Continue (p\<lparr>decrypt_data := d\<rparr>))"
proof -
  let ?data = "encrypt_data p"
  have second: "case key_plain D srv ?data (Suc 0) of
           KP_Accept out \<Rightarrow>
             decrypt_key_pass D srv (p\<lparr>decrypt_data := d\<rparr>) (Suc 0)
               = Decrypted (p\<lparr>decrypt_data := set_decrypt_data out (length out)\<rparr>)
         | KP_Fail \<Rightarrow> decrypt_key_pass D srv (p\<lparr>decrypt_data := d\<rparr>) (Suc 0) = GotoFail (p\<lparr>decrypt_data := d\<rparr>)
         | KP_Fault f \<Rightarrow> (\<exists>d'. decrypt_key_pass D srv (p\<lparr>decrypt_data := d\<rparr>) (Suc 0)
               = KeyFault f (p\<lparr>decrypt_data := d'\<rparr>))
         | KP_Skip \<Rightarrow> decrypt_key_pass D srv (p\<lparr>decrypt_data := d\<rparr>) (Suc 0) = Continue (p\<lparr>decrypt_data := d\<rparr>)
         | KP_Reject out \<Rightarrow> decrypt_key_pass D srv (p\<lparr>decrypt_data := d\<rparr>) (Suc 0)
               = Continue (p\<lparr>decrypt_data := set_decrypt_data out (length out)\<rparr>)" for d
  proof -
    let ?q = "p\<lparr>decrypt_data := d\<rparr>"
    have q: "encrypt_data_len ?q = length (encrypt_data ?q)" "encrypt_data ?q \<noteq> []"
      using assms by simp_all
    have e: "encrypt_data ?q = ?data" by simp
    show ?thesis
    proof (cases "key_plain D srv ?data (Suc 0)")
      case KP_Skip
      then show ?thesis using key_pass_by_plain(1)[OF q, of D srv "Suc 0"] by simp
    next
      case KP_Fail
      then show ?thesis using key_pass_by_plain(2)[OF q, of D srv "Suc 0"] by simp
    next
      case (KP_Fault f)
      then show ?thesis using decrypt_key_pass_fault[OF q, of D srv "Suc 0" f] by simp
    next
      case (KP_Reject out)
      then show ?thesis using key_pass_by_plain(3)[OF q, of D srv "Suc 0" out] by simp
    next
      case (KP_Accept out)
      then show ?thesis using key_pass_by_plain(4)[OF q, of D srv "Suc 0" out] by simp
    qed
  qed
  have fin: ?thesis if first: "decrypt_key_pass D srv p 0 = Continue (p\<lparr>decrypt_data := d\<rparr>)"
    and kp: "keys_plain D srv ?data = key_plain D srv ?data (Suc 0)" for d
  proof (cases "key_plain D srv ?data (Suc 0)")
    case KP_Skip
    with second[of d] first kp show ?thesis
      by (simp add: decrypt_key_loop_0) blast
  next
    case KP_Fail
    with second[of d] first kp show ?thesis
      by (simp add: decrypt_key_loop_0) blast
  next
    case (KP_Fault f)
    with second[of d] first kp show ?thesis
      by (auto simp add: decrypt_key_loop_0)
  next
    case (KP_Reject out)
    with second[of d] first kp show ?thesis
      by (simp add: decrypt_key_loop_0) blast
  next
    case (KP_Accept out)
    with second[of d] first kp show ?thesis
      by (simp add: decrypt_key_loop_0)
  qed
  show ?thesis
  proof (cases "key_plain D srv ?data 0")
    case KP_Skip
    have "decrypt_key_pass D srv p 0 = Continue (p\<lparr>decrypt_data := decrypt_data p\<rparr>)"
      using key_pass_by_plain(1)[OF assms KP_Skip] by simp
    moreover have "keys_plain D srv ?data = key_plain D srv ?data (Suc 0)"
      using KP_Skip by (simp add: keys_plain_def)
    ultimately show ?thesis by (rule fin)
  next
    case KP_Fail
    have "decrypt_key_loop D srv p 0 = GotoFail (p\<lparr>decrypt_data := decrypt_data p\<rparr>)"
      using key_pass_by_plain(2)[OF assms KP_Fail] by (simp add: decrypt_key_loop_0)
    then show ?thesis using KP_Fail
      by (simp add: keys_plain_def) (rule exI[of _ "decrypt_data p"], simp)
  next
    case (KP_Fault f)
    from decrypt_key_pass_fault[OF assms this] obtain d where
      "decrypt_key_pass D srv p 0 = KeyFault f (p\<lparr>decrypt_data := d\<rparr>)" by blast
    then show ?thesis using KP_Fault by (auto simp add: keys_plain_def decrypt_key_loop_0)
  next
    case (KP_Reject out)
    have "decrypt_key_pass D srv p 0 = Continue (p\<lparr>decrypt_data := set_decrypt_data out (length out)\<rparr>)"
      using key_pass_by_plain(3)[OF assms KP_Reject] .
    moreover have "keys_plain D srv ?data = key_plain D srv ?data (Suc 0)"
      using KP_Reject by (simp add: keys_plain_def)
    ultimately show ?thesis by (rule fin)
  next
    case (KP_Accept out)
    then show ?thesis
      using key_pass_by_plain(4)[OF assms KP_Accept]
      by (simp add: keys_plain_def decrypt_key_loop_0)
  qed
qed


lemma length_hex2bin_loop: "length (hex2bin_loop c) = length c div 2"
  by (induction c rule: hex2bin_loop.induct) simp_all

lemma attempts_append: "attempts (xs @ ys) = attempts xs @ attempts ys"
  by (induction xs rule: attempts.induct) simp_all

lemma build_info_decode_ok:
  assumes "length (encrypt_string p) mod 2 = 0" "encrypt_string p \<noteq> []"
  shows "build_info_decode p = (0, decoded p)"
  using assms by (simp add: build_info_decode_def ngx_http_pta_hex2bin_def decoded_def)

lemma build_info_decode_odd:
  assumes "length (encrypt_string p) mod 2 \<noteq> 0"
  shows "build_info_decode p = (NGX_HTTP_BAD_REQUEST, ngx_log_error TokenInvalid2 p)"
  using assms by (simp add: build_info_decode_def)

lemma build_info_decode_empty:
  assumes "encrypt_string p = []"
  shows "build_info_decode p
           = (NGX_HTTP_BAD_REQUEST, ngx_log_error EncryptStringSizeInvalid (p\<lparr>encrypt_data := []\<rparr>))"
  using assms by (simp add: build_info_decode_def ngx_http_pta_hex2bin_def)

lemma build_info_cookie:
  assumes "cookie_state p cs i" "i < length cs"
  shows "ngx_http_pta_build_info r p = build_info_decode (p\<lparr>encrypt_string := cs ! i\<rparr>)"
  using assms
  by (simp add: ngx_http_pta_build_info_def cookie_state_def NGX_IIJPTA_AUTH_QS_def
      NGX_IIJPTA_AUTH_COOKIE_def NGX_OK_def)

lemma build_info_qs:
  assumes "auth_type p = NGX_IIJPTA_AUTH_QS" "args_pta r = Some c"
  shows "ngx_http_pta_build_info r p
           = build_info_decode (p\<lparr>encrypt_data_array := None, encrypt_string := c\<rparr>)"
  using assms by (simp add: ngx_http_pta_build_info_def)

lemma decoded_fields:
  "encrypt_data (decoded p) = hex2bin_loop (encrypt_string p)"
  "encrypt_data_len (decoded p) = length (encrypt_data (decoded p))"
  "auth_type (decoded p) = auth_type p"
  "encrypt_data_array (decoded p) = encrypt_data_array p"
  "encrypt_data_array_idx (decoded p) = encrypt_data_array_idx p"
  "need_fallback_cookie (decoded p) = need_fallback_cookie p"
  "err_log (decoded p) = err_log p @ [EncryptString (encrypt_string p) (auth_type p)]"
  by (simp_all add: decoded_def ngx_log_error_def length_hex2bin_loop)

lemma hex2bin_loop_nonempty:
  assumes "length c mod 2 = 0" "c \<noteq> []"
  shows "hex2bin_loop c \<noteq> []"
proof -
  have "0 < length c" using assms(2) by simp
  with assms(1) have "0 < length c div 2" by arith
  then show ?thesis using length_hex2bin_loop[of c] by auto
qed

lemma decrypt_again_built:
  assumes b: "ngx_http_pta_build_info r p = (0, q)"
    and q: "encrypt_data_len q = length (encrypt_data q)" "encrypt_data q \<noteq> []"
  shows "case keys_plain D srv (encrypt_data q) of
       KP_Accept out \<Rightarrow> decrypt_again D srv r p
            = Return (Ret 0) (q\<lparr>decrypt_data := set_decrypt_data out (length out)\<rparr>)
     | KP_Fail \<Rightarrow> (\<exists>d. decrypt_again D srv r p
            = Return (Ret 403) (ngx_log_error DecryptFailed (q\<lparr>decrypt_data := d\<rparr>)))
     | KP_Fault f \<Rightarrow> (\<exists>d. decrypt_again D srv r p = Return (Fault f) (q\<lparr>decrypt_data := d\<rparr>))
     | KP_Skip \<Rightarrow> (\<exists>d. decrypt_again D srv r p = decrypt_exhausted (q\<lparr>decrypt_data := d\<rparr>))
     | KP_Reject out \<Rightarrow> (\<exists>d. decrypt_again D srv r p = decrypt_exhausted (q\<lparr>decrypt_data := d\<rparr>))"
proof -
  have da: "decrypt_again D srv r p =
      (case decrypt_key_loop D srv q 0 of
                  Decrypted pta2 \<Rightarrow> Return (Ret 0) pta2
                | GotoFail pta2 \<Rightarrow> Return (Ret 403) (ngx_log_error DecryptFailed pta2)
                | KeyFault f pta2 \<Rightarrow> Return (Fault f) pta2
                | Continue pta2 \<Rightarrow> decrypt_exhausted pta2)"
    by (simp add: decrypt_again_def b NGX_HTTP_PTA_FALLBACK_def)
  show ?thesis
    using decrypt_key_loop_plain[OF q, of D srv]
    unfolding da by (cases "keys_plain D srv (encrypt_data q)") auto
qed

lemma unat_idx_Suc:
  fixes w :: "16 word"
  assumes "unat w = i" "i + 1 < 65536"
  shows "unat (w + 1) = i + 1"
proof -
  have "unat w + unat (1 :: 16 word) < 2 ^ LENGTH(16)" using assms by simp
  then have "unat (w + 1) = unat w + unat (1 :: 16 word)" by (simp only: unat_add_lem[THEN iffD1])
  then show ?thesis using assms by simp
qed

lemma decrypt_exhausted_cookie:
  assumes "cookie_state q cs i" "i < length cs" "length cs < 65536"
  shows "\<exists>q'. cookie_state q' cs (i + 1) \<and> attempts (err_log q') = attempts (err_log q)
           \<and> decrypt_exhausted q = (if i + 1 < length cs then Goto q' else Return (Ret 403) q')"
proof -
  let ?q1 = "q\<lparr>encrypt_data_array_idx := encrypt_data_array_idx q + 1\<rparr>"
  have u: "unat (encrypt_data_array_idx q + 1) = i + 1"
    using assms by (intro unat_idx_Suc) (simp_all add: cookie_state_def)
  have c1: "cookie_state ?q1 cs (i + 1)" using assms(1) u by (simp add: cookie_state_def)
  show ?thesis
  proof (cases "i + 1 < length cs")
    case True
    let ?q' = "ngx_log_error (DecryptFailedNext (i + 1)) ?q1"
    have "decrypt_exhausted q = Goto ?q'"
      using assms(1) u True by (simp add: decrypt_exhausted_def cookie_state_def nelts_def Let_def)
    moreover have "cookie_state ?q' cs (i + 1)" using c1 by (simp add: cookie_state_def ngx_log_error_def)
    moreover have "attempts (err_log ?q') = attempts (err_log q)"
      by (simp add: ngx_log_error_def attempts_append)
    ultimately show ?thesis using True by auto
  next
    case False
    let ?q' = "ngx_log_error DecryptFailed ?q1"
    have "decrypt_exhausted q = Return (Ret 403) ?q'"
      using assms(1) u False by (simp add: decrypt_exhausted_def cookie_state_def nelts_def Let_def)
    moreover have "cookie_state ?q' cs (i + 1)" using c1 by (simp add: cookie_state_def ngx_log_error_def)
    moreover have "attempts (err_log ?q') = attempts (err_log q)"
      by (simp add: ngx_log_error_def attempts_append)
    ultimately show ?thesis using False by auto
  qed
qed

lemma next_candidate_cookie:
  assumes "cookie_state q cs i" "i < length cs" "length cs < 65536"
  shows "\<exists>q'. cookie_state q' cs (i + 1) \<and> attempts (err_log q') = attempts (err_log q)
           \<and> next_candidate code q = (if i + 1 < length cs then Goto q' else Return (Ret code) q')"
proof -
  let ?q1 = "q\<lparr>encrypt_data_array_idx := encrypt_data_array_idx q + 1\<rparr>"
  have u: "unat (encrypt_data_array_idx q + 1) = i + 1"
    using assms by (intro unat_idx_Suc) (simp_all add: cookie_state_def)
  have c1: "cookie_state ?q1 cs (i + 1)" using assms(1) u by (simp add: cookie_state_def)
  show ?thesis
  proof (cases "i + 1 < length cs")
    case True
    let ?q' = "ngx_log_error (CheckingNext (i + 1)) ?q1"
    have "next_candidate code q = Goto ?q'"
      using assms(1) u True by (simp add: next_candidate_def cookie_state_def nelts_def Let_def)
    moreover have "cookie_state ?q' cs (i + 1)" using c1 by (simp add: cookie_state_def ngx_log_error_def)
    moreover have "attempts (err_log ?q') = attempts (err_log q)"
      by (simp add: ngx_log_error_def attempts_append)
    ultimately show ?thesis using True by auto
  next
    case False
    have "next_candidate code q = Return (Ret code) ?q1"
      using assms(1) u False by (simp add: next_candidate_def cookie_state_def nelts_def Let_def)
    moreover have "attempts (err_log ?q1) = attempts (err_log q)" by simp
    ultimately show ?thesis using False c1 by auto
  qed
qed


lemma decrypt_Return:
  "decrypt_again D srv r p = Return x p' \<Longrightarrow> ngx_http_pta_decrypt D srv r p = Some (x, p')"
  by (subst ngx_http_pta_decrypt.simps) simp

lemma decrypt_Goto:
  "decrypt_again D srv r p = Goto p' \<Longrightarrow>
     ngx_http_pta_decrypt D srv r p = ngx_http_pta_decrypt D srv r p'"
  by (subst ngx_http_pta_decrypt.simps) simp

lemma handler_more_decrypt_eq:
  "ngx_http_pta_decrypt D srv r p = ngx_http_pta_decrypt D srv r p' \<Longrightarrow>
     handler_more D now srv r p = handler_more D now srv r p'"
  by (subst handler_more.simps[of D now srv r p], subst handler_more.simps[of D now srv r p']) simp

lemma handler_more_Return:
  "ngx_http_pta_decrypt D srv r p = Some (x, p1) \<Longrightarrow> handler_checks now r x p1 = Return y p2 \<Longrightarrow>
     handler_more D now srv r p = Some (y, p2)"
  by (subst handler_more.simps) simp

lemma handler_more_Goto:
  "ngx_http_pta_decrypt D srv r p = Some (x, p1) \<Longrightarrow> handler_checks now r x p1 = Goto p2 \<Longrightarrow>
     handler_more D now srv r p = handler_more D now srv r p2"
  by (subst handler_more.simps) simp

lemma handler_checks_nonzero:
  "c \<noteq> 0 \<Longrightarrow> handler_checks now r (Ret c) p = Return (Ret c) p"
  "handler_checks now r (Fault f) p = Return (Fault f) p"
  by (simp_all add: handler_checks_def)

lemma decrypt_data_plain_pta: "decrypt_data (plain_pta p out) = set_decrypt_data out (length out)"
  by (simp add: plain_pta_def)

lemma handler_checks_plain:
  assumes "decrypt_data p1 = set_decrypt_data out (length out)"
  shows "handler_checks now r (Ret 0) p1 =
     (if ngx_http_pta_check_deadline now (plain_pta pta_zero out) \<noteq> 0
      then next_candidate 410 (ngx_log_error RequestExpired p1)
      else (case ngx_http_pta_check_url r (plain_pta pta_zero out) of
              (Fault f, msgs) \<Rightarrow> Return (Fault f) (p1\<lparr>err_log := err_log p1 @ msgs\<rparr>)
            | (Ret u, msgs) \<Rightarrow>
                if u \<noteq> 0
                then next_candidate 403
                       (ngx_log_error UrlInvalid (p1\<lparr>err_log := err_log p1 @ msgs\<rparr>))
                else Return (Ret NGX_DECLINED)
                       (ngx_log_error Successful (p1\<lparr>err_log := err_log p1 @ msgs\<rparr>))))"
proof -
  have e: "decrypt_data p1 = decrypt_data (plain_pta pta_zero out)"
    using assms by (simp add: decrypt_data_plain_pta)
  show ?thesis
    unfolding handler_checks_def check_deadline_depends[OF e] check_url_depends[OF e]
    by simp
qed

lemma url_msgs_no_attempts:
  "attempts (snd (ngx_http_pta_check_wildcard_url r p wdx idx)) = []"
  by (simp add: ngx_http_pta_check_wildcard_url_def Let_def split: option.splits)

lemma check_url_loop_no_attempts:
  "attempts (snd (check_url_loop r p ast idx wdx)) = []"
proof (induction "length (url (decrypt_data p)) - wdx" arbitrary: ast idx wdx rule: less_induct)
  case less
  have IH: "attempts (snd (check_url_loop r p a i w)) = []"
    if "wdx < w" "wdx < length (url (decrypt_data p))" for a i w
    by (rule less) (use that in arith)
  show ?case
    apply (subst check_url_loop.simps)
    unfolding Let_def
    by (auto simp add: IH not_le url_msgs_no_attempts split: option.splits)
qed

lemma check_url_no_attempts: "attempts (snd (ngx_http_pta_check_url r p)) = []"
  by (simp add: ngx_http_pta_check_url_def check_url_loop_no_attempts)

lemma same_mode_refl: "same_mode p p"
  by (simp add: same_mode_def)

lemma same_mode_decoded: "same_mode (decoded p) p"
  by (simp add: same_mode_def decoded_fields)

lemma same_mode_upd:
  "same_mode (p\<lparr>decrypt_data := d\<rparr>) q = same_mode p q"
  "same_mode (p\<lparr>err_log := l\<rparr>) q = same_mode p q"
  "same_mode (ngx_log_error m p) q = same_mode p q"
  "same_mode (p\<lparr>encrypt_data := e\<rparr>) q = same_mode p q"
  by (simp_all add: same_mode_def ngx_log_error_def)

lemma attempts_log:
  "attempts (err_log (ngx_log_error m p)) = attempts (err_log p) @ attempts [m]"
  by (simp add: ngx_log_error_def attempts_append)

lemma candidate_malformed:
  assumes bi: "ngx_http_pta_build_info r p = build_info_decode p0"
    and oc: "candidate_outcome D now srv r (encrypt_string p0) = Malformed"
  shows "\<exists>p'. same_mode p' p0 \<and> attempts (err_log p') = attempts (err_log p0)
            \<and> handler_more D now srv r p = Some (Ret NGX_HTTP_BAD_REQUEST, p')"
proof -
  let ?c = "encrypt_string p0"
  have m: "length ?c mod 2 \<noteq> 0 \<or> ?c = []"
    using oc by (auto simp add: candidate_outcome_def split: if_splits key_plain.splits ret.splits)
  have "\<exists>p'. same_mode p' p0 \<and> attempts (err_log p') = attempts (err_log p0)
            \<and> build_info_decode p0 = (NGX_HTTP_BAD_REQUEST, p')"
  proof (cases "length ?c mod 2 \<noteq> 0")
    case True
    then show ?thesis
      using build_info_decode_odd[of p0]
      by (auto simp add: same_mode_upd same_mode_refl attempts_log)
  next
    case False
    with m have "?c = []" by simp
    then show ?thesis
      using build_info_decode_empty[of p0]
      by (auto simp add: same_mode_upd same_mode_refl attempts_log)
  qed
  then obtain p' where p': "same_mode p' p0" "attempts (err_log p') = attempts (err_log p0)"
    "build_info_decode p0 = (NGX_HTTP_BAD_REQUEST, p')" by blast
  have "decrypt_again D srv r p = Return (Ret NGX_HTTP_BAD_REQUEST) p'"
    by (simp add: decrypt_again_def bi p'(3) NGX_HTTP_BAD_REQUEST_def NGX_HTTP_PTA_FALLBACK_def)
  then have "ngx_http_pta_decrypt D srv r p = Some (Ret NGX_HTTP_BAD_REQUEST, p')"
    by (rule decrypt_Return)
  then have "handler_more D now srv r p = Some (Ret NGX_HTTP_BAD_REQUEST, p')"
    by (rule handler_more_Return) (simp add: handler_checks_nonzero NGX_HTTP_BAD_REQUEST_def)
  with p' show ?thesis by blast
qed

lemma candidate_decoded:
  assumes bi: "ngx_http_pta_build_info r p = build_info_decode p0"
    and oc: "candidate_outcome D now srv r (encrypt_string p0) \<noteq> Malformed"
  shows "ngx_http_pta_build_info r p = (0, decoded p0)"
    and "encrypt_data_len (decoded p0) = length (encrypt_data (decoded p0))"
    and "encrypt_data (decoded p0) \<noteq> []"
    and "encrypt_data (decoded p0) = hex2bin_loop (encrypt_string p0)"
    and "attempts (err_log (decoded p0)) = attempts (err_log p0) @ [encrypt_string p0]"
proof -
  let ?c = "encrypt_string p0"
  have m: "length ?c mod 2 = 0" "?c \<noteq> []"
    using oc by (auto simp add: candidate_outcome_def split: if_splits)
  show "ngx_http_pta_build_info r p = (0, decoded p0)"
    using build_info_decode_ok[OF m] bi by simp
  show "encrypt_data_len (decoded p0) = length (encrypt_data (decoded p0))"
    by (rule decoded_fields)
  show "encrypt_data (decoded p0) \<noteq> []"
    using hex2bin_loop_nonempty[OF m] by (simp add: decoded_fields)
  show "encrypt_data (decoded p0) = hex2bin_loop (encrypt_string p0)"
    by (rule decoded_fields)
  show "attempts (err_log (decoded p0)) = attempts (err_log p0) @ [encrypt_string p0]"
    by (simp add: decoded_fields attempts_append)
qed

lemma candidate_outcome_keys:
  assumes "candidate_outcome D now srv r c \<noteq> Malformed"
  shows "candidate_outcome D now srv r c =
      (case keys_plain D srv (hex2bin_loop c) of
              KP_Fail \<Rightarrow> CryptoFailed
            | KP_Fault f \<Rightarrow> Faulted f
            | KP_Accept out \<Rightarrow>
                if ngx_http_pta_check_deadline now (plain_pta pta_zero out) \<noteq> 0 then Expired
                else (case fst (ngx_http_pta_check_url r (plain_pta pta_zero out)) of
                        Fault f \<Rightarrow> Faulted f
                      | Ret u \<Rightarrow> if u \<noteq> 0 then UrlMismatch else Authorized)
            | KP_Skip \<Rightarrow> IntegrityFailed
            | KP_Reject out \<Rightarrow> IntegrityFailed)"
  using assms by (simp add: candidate_outcome_def split: if_splits)

lemma handler_more_jump:
  "ngx_http_pta_decrypt D srv r p = Some (x, p1) \<Longrightarrow>
     handler_more D now srv r p =
       (case handler_checks now r x p1 of
          Return y p2 \<Rightarrow> Some (y, p2)
        | Goto p2 \<Rightarrow> handler_more D now srv r p2)"
  by (subst handler_more.simps) simp

lemma decrypt_exhausted_Return:
  "decrypt_exhausted q = Return x p2 \<Longrightarrow> x = Ret 403 \<or> x = Fault NullArray"
  by (auto simp add: decrypt_exhausted_def Let_def split: if_splits option.splits)

lemma handler_more_exhausted:
  assumes "decrypt_again D srv r p = decrypt_exhausted q"
  shows "handler_more D now srv r p =
       (case decrypt_exhausted q of
          Return y p2 \<Rightarrow> Some (y, p2)
        | Goto p2 \<Rightarrow> handler_more D now srv r p2)"
proof (cases "decrypt_exhausted q")
  case (Return x p2)
  then have d: "ngx_http_pta_decrypt D srv r p = Some (x, p2)"
    using assms by (intro decrypt_Return) simp
  have "handler_checks now r x p2 = Return x p2"
    using decrypt_exhausted_Return[OF Return] by (auto simp add: handler_checks_nonzero)
  with d have "handler_more D now srv r p = Some (x, p2)" by (rule handler_more_Return)
  then show ?thesis using Return by simp
next
  case (Goto p2)
  then have "ngx_http_pta_decrypt D srv r p = ngx_http_pta_decrypt D srv r p2"
    using assms by (intro decrypt_Goto) simp
  then have "handler_more D now srv r p = handler_more D now srv r p2"
    by (rule handler_more_decrypt_eq)
  then show ?thesis using Goto by simp
qed

lemma candidate_final:
  assumes bi: "ngx_http_pta_build_info r p = build_info_decode p0"
    and oc: "candidate_outcome D now srv r (encrypt_string p0) = oc"
      "oc \<noteq> Malformed" "\<not> advancing oc"
  shows "\<exists>p'. same_mode p' p0
            \<and> attempts (err_log p') = attempts (err_log p0) @ [encrypt_string p0]
            \<and> (oc = Authorized \<longrightarrow> (\<exists>out. decrypt_data p' = set_decrypt_data out (length out)
                    \<and> keys_plain D srv (hex2bin_loop (encrypt_string p0)) = KP_Accept out))
            \<and> handler_more D now srv r p = Some (final_ret oc, p')"
proof -
  let ?c = "encrypt_string p0" and ?q = "decoded p0"
  have nm: "candidate_outcome D now srv r ?c \<noteq> Malformed" using oc by simp
  note dec = candidate_decoded[OF bi nm]
  note ab = decrypt_again_built[OF dec(1,2,3), of D srv, unfolded dec(4)]
  note ok = candidate_outcome_keys[OF nm, unfolded oc(1)]
  show ?thesis
  proof (cases "keys_plain D srv (hex2bin_loop ?c)")
    case KP_Skip
    with ok oc(3) show ?thesis by (simp add: advancing_def)
  next
    case (KP_Reject out)
    with ok oc(3) show ?thesis by (simp add: advancing_def)
  next
    case KP_Fail
    with ab obtain d where
      "decrypt_again D srv r p = Return (Ret 403) (ngx_log_error DecryptFailed (?q\<lparr>decrypt_data := d\<rparr>))"
      by auto
    then have "ngx_http_pta_decrypt D srv r p
        = Some (Ret 403, ngx_log_error DecryptFailed (?q\<lparr>decrypt_data := d\<rparr>))"
      by (rule decrypt_Return)
    then have "handler_more D now srv r p
        = Some (Ret 403, ngx_log_error DecryptFailed (?q\<lparr>decrypt_data := d\<rparr>))"
      by (rule handler_more_Return) (simp add: handler_checks_nonzero)
    moreover have "oc = CryptoFailed" using ok KP_Fail by simp
    ultimately show ?thesis
      using dec(5)
      by (intro exI[of _ "ngx_log_error DecryptFailed (?q\<lparr>decrypt_data := d\<rparr>)"])
         (simp add: same_mode_upd same_mode_decoded attempts_log final_ret_def)
  next
    case (KP_Fault f)
    with ab obtain d where
      "decrypt_again D srv r p = Return (Fault f) (?q\<lparr>decrypt_data := d\<rparr>)"
      by auto
    then have "ngx_http_pta_decrypt D srv r p = Some (Fault f, ?q\<lparr>decrypt_data := d\<rparr>)"
      by (rule decrypt_Return)
    then have "handler_more D now srv r p = Some (Fault f, ?q\<lparr>decrypt_data := d\<rparr>)"
      by (rule handler_more_Return) (simp add: handler_checks_nonzero)
    moreover have "oc = Faulted f" using ok KP_Fault by simp
    ultimately show ?thesis
      using dec(5)
      by (intro exI[of _ "?q\<lparr>decrypt_data := d\<rparr>"])
         (simp add: same_mode_upd same_mode_decoded final_ret_def)
  next
    case (KP_Accept out)
    let ?p1 = "?q\<lparr>decrypt_data := set_decrypt_data out (length out)\<rparr>"
    have "decrypt_again D srv r p = Return (Ret 0) ?p1" using ab KP_Accept by simp
    then have d: "ngx_http_pta_decrypt D srv r p = Some (Ret 0, ?p1)" by (rule decrypt_Return)
    have hc: "handler_checks now r (Ret 0) ?p1 =
       (if ngx_http_pta_check_deadline now (plain_pta pta_zero out) \<noteq> 0
        then next_candidate 410 (ngx_log_error RequestExpired ?p1)
        else (case ngx_http_pta_check_url r (plain_pta pta_zero out) of
              (Fault f, msgs) \<Rightarrow> Return (Fault f) (?p1\<lparr>err_log := err_log ?p1 @ msgs\<rparr>)
            | (Ret u, msgs) \<Rightarrow>
                if u \<noteq> 0
                then next_candidate 403
                       (ngx_log_error UrlInvalid (?p1\<lparr>err_log := err_log ?p1 @ msgs\<rparr>))
                else Return (Ret NGX_DECLINED)
                       (ngx_log_error Successful (?p1\<lparr>err_log := err_log ?p1 @ msgs\<rparr>))))"
      by (rule handler_checks_plain) simp
    obtain x msgs where u: "ngx_http_pta_check_url r (plain_pta pta_zero out) = (x, msgs)"
      by (cases "ngx_http_pta_check_url r (plain_pta pta_zero out)")
    have ms: "attempts msgs = []" using check_url_no_attempts[of r "plain_pta pta_zero out"] u by simp
    have dl: "ngx_http_pta_check_deadline now (plain_pta pta_zero out) = 0"
      using ok oc(3) KP_Accept by (auto simp add: advancing_def split: if_splits)
    show ?thesis
    proof (cases x)
      case (Fault f)
      then have "oc = Faulted f" using ok KP_Accept dl u by simp
      moreover have "handler_more D now srv r p = Some (Fault f, ?p1\<lparr>err_log := err_log ?p1 @ msgs\<rparr>)"
        using d by (rule handler_more_Return) (simp add: hc dl u Fault)
      ultimately show ?thesis
        using dec(5) ms
        by (intro exI[of _ "?p1\<lparr>err_log := err_log ?p1 @ msgs\<rparr>"])
           (simp add: same_mode_upd same_mode_decoded final_ret_def attempts_append)
    next
      case (Ret v)
      then have v: "v = 0" "oc = Authorized"
        using ok oc(3) KP_Accept dl u by (auto simp add: advancing_def split: if_splits)
      have "handler_more D now srv r p
          = Some (Ret NGX_DECLINED, ngx_log_error Successful (?p1\<lparr>err_log := err_log ?p1 @ msgs\<rparr>))"
        using d by (rule handler_more_Return) (simp add: hc dl u Ret v)
      then show ?thesis
        using dec(5) ms v KP_Accept
        by (intro exI[of _ "ngx_log_error Successful (?p1\<lparr>err_log := err_log ?p1 @ msgs\<rparr>)"])
           (auto simp add: same_mode_upd same_mode_decoded final_ret_def attempts_append attempts_log
              ngx_log_error_def)
    qed
  qed
qed

lemma candidate_advance:
  assumes bi: "ngx_http_pta_build_info r p = build_info_decode p0"
    and oc: "candidate_outcome D now srv r (encrypt_string p0) = oc" "advancing oc"
  shows "\<exists>q. same_mode q p0
            \<and> attempts (err_log q) = attempts (err_log p0) @ [encrypt_string p0]
            \<and> handler_more D now srv r p =
                (case advance oc q of
                   Return x p2 \<Rightarrow> Some (x, p2)
                 | Goto p2 \<Rightarrow> handler_more D now srv r p2)"
proof -
  let ?c = "encrypt_string p0" and ?q = "decoded p0"
  have nm: "candidate_outcome D now srv r ?c \<noteq> Malformed" using oc by (auto simp add: advancing_def)
  note dec = candidate_decoded[OF bi nm]
  note ab = decrypt_again_built[OF dec(1,2,3), of D srv, unfolded dec(4)]
  note ok = candidate_outcome_keys[OF nm, unfolded oc(1)]
  have exhausted: ?thesis
    if e: "\<exists>d. decrypt_again D srv r p = decrypt_exhausted (?q\<lparr>decrypt_data := d\<rparr>)"
      and i: "oc = IntegrityFailed"
  proof -
    from e obtain d where "decrypt_again D srv r p = decrypt_exhausted (?q\<lparr>decrypt_data := d\<rparr>)"
      by blast
    from handler_more_exhausted[OF this, of now] dec(5) i show ?thesis
      by (intro exI[of _ "?q\<lparr>decrypt_data := d\<rparr>"])
         (simp add: same_mode_upd same_mode_decoded advance_def)
  qed
  show ?thesis
  proof (cases "keys_plain D srv (hex2bin_loop ?c)")
    case KP_Skip
    with ab ok show ?thesis by (intro exhausted) simp_all
  next
    case (KP_Reject out)
    with ab ok show ?thesis by (intro exhausted) simp_all
  next
    case KP_Fail
    with ok oc(2) show ?thesis by (simp add: advancing_def)
  next
    case (KP_Fault f)
    with ok oc(2) show ?thesis by (simp add: advancing_def)
  next
    case (KP_Accept out)
    let ?p1 = "?q\<lparr>decrypt_data := set_decrypt_data out (length out)\<rparr>"
    have "decrypt_again D srv r p = Return (Ret 0) ?p1" using ab KP_Accept by simp
    then have d: "ngx_http_pta_decrypt D srv r p = Some (Ret 0, ?p1)" by (rule decrypt_Return)
    note hm = handler_more_jump[OF d, of now]
    have hc: "handler_checks now r (Ret 0) ?p1 =
       (if ngx_http_pta_check_deadline now (plain_pta pta_zero out) \<noteq> 0
        then next_candidate 410 (ngx_log_error RequestExpired ?p1)
        else (case ngx_http_pta_check_url r (plain_pta pta_zero out) of
              (Fault f, msgs) \<Rightarrow> Return (Fault f) (?p1\<lparr>err_log := err_log ?p1 @ msgs\<rparr>)
            | (Ret u, msgs) \<Rightarrow>
                if u \<noteq> 0
                then next_candidate 403
                       (ngx_log_error UrlInvalid (?p1\<lparr>err_log := err_log ?p1 @ msgs\<rparr>))
                else Return (Ret NGX_DECLINED)
                       (ngx_log_error Successful (?p1\<lparr>err_log := err_log ?p1 @ msgs\<rparr>))))"
      by (rule handler_checks_plain) simp
    obtain x msgs where u: "ngx_http_pta_check_url r (plain_pta pta_zero out) = (x, msgs)"
      by (cases "ngx_http_pta_check_url r (plain_pta pta_zero out)")
    have ms: "attempts msgs = []" using check_url_no_attempts[of r "plain_pta pta_zero out"] u by simp
    show ?thesis
    proof (cases "ngx_http_pta_check_deadline now (plain_pta pta_zero out) \<noteq> 0")
      case True
      then have "oc = Expired" using ok KP_Accept by simp
      with hm hc True dec(5) show ?thesis
        by (intro exI[of _ "ngx_log_error RequestExpired ?p1"])
           (simp add: same_mode_upd same_mode_decoded advance_def attempts_log)
    next
      case False
      with ok KP_Accept u oc(2) obtain v where v: "x = Ret v" "v \<noteq> 0" "oc = UrlMismatch"
        by (cases x) (auto simp add: advancing_def split: if_splits)
      with hm hc False dec(5) u ms show ?thesis
        by (intro exI[of _ "ngx_log_error UrlInvalid (?p1\<lparr>err_log := err_log ?p1 @ msgs\<rparr>)"])
           (simp add: same_mode_upd same_mode_decoded advance_def attempts_log attempts_append)
    qed
  qed
qed

lemma cookie_state_same_mode:
  "same_mode q p \<Longrightarrow> cookie_state p cs i \<Longrightarrow> cookie_state q cs i"
  by (simp add: same_mode_def cookie_state_def)

lemma final_ret_advancing:
  "advancing oc \<Longrightarrow> final_ret oc = Ret (if oc = IntegrityFailed then 403 else if oc = Expired then 410 else 403)"
  by (auto simp add: advancing_def final_ret_def)

lemma advance_cookie:
  assumes "cookie_state q cs i" "i < length cs" "length cs < 65536" "advancing oc"
  shows "\<exists>q'. cookie_state q' cs (i + 1) \<and> attempts (err_log q') = attempts (err_log q)
           \<and> advance oc q = (if i + 1 < length cs then Goto q' else Return (final_ret oc) q')"
proof (cases "oc = IntegrityFailed")
  case True
  then show ?thesis
    using decrypt_exhausted_cookie[OF assms(1,2,3)]
    by (auto simp add: advance_def final_ret_def)
next
  case False
  then show ?thesis
    using next_candidate_cookie[OF assms(1,2,3), of "if oc = Expired then 410 else 403"] assms(4)
    by (auto simp add: advance_def final_ret_advancing)
qed

lemma handler_more_cookie_step:
  assumes bi: "ngx_http_pta_build_info r p = build_info_decode p0"
    and p0: "cookie_state p0 cs i" "encrypt_string p0 = cs ! i"
    and i: "i < length cs" "length cs < 65536"
    and oc: "candidate_outcome D now srv r (cs ! i) = oc"
  shows "\<exists>p'. attempts (err_log p')
              = attempts (err_log p0) @ (if oc = Malformed then [] else [cs ! i])
         \<and> (if advancing oc \<and> i + 1 < length cs
            then cookie_state p' cs (i + 1)
                 \<and> handler_more D now srv r p = handler_more D now srv r p'
            else handler_more D now srv r p = Some (final_ret oc, p'))"
proof -
  have oc': "candidate_outcome D now srv r (encrypt_string p0) = oc" using oc p0(2) by simp
  consider (m) "oc = Malformed" | (f) "oc \<noteq> Malformed" "\<not> advancing oc" | (a) "advancing oc"
    by blast
  then show ?thesis
  proof cases
    case m
    then have "\<not> advancing oc" by (simp add: advancing_def)
    with candidate_malformed[OF bi oc'[unfolded m], of ] m show ?thesis
      by (auto simp add: final_ret_def)
  next
    case f
    with candidate_final[OF bi oc' f] p0(2) show ?thesis by auto
  next
    case a
    then have nm: "oc \<noteq> Malformed" by (auto simp add: advancing_def)
    from candidate_advance[OF bi oc' a] obtain q where q: "same_mode q p0"
      "attempts (err_log q) = attempts (err_log p0) @ [encrypt_string p0]"
      "handler_more D now srv r p =
                (case advance oc q of
                   Return x p2 \<Rightarrow> Some (x, p2)
                 | Goto p2 \<Rightarrow> handler_more D now srv r p2)" by blast
    have "cookie_state q cs i" using q(1) p0(1) by (rule cookie_state_same_mode)
    from advance_cookie[OF this i a] obtain q' where q': "cookie_state q' cs (i + 1)"
      "attempts (err_log q') = attempts (err_log q)"
      "advance oc q = (if i + 1 < length cs then Goto q' else Return (final_ret oc) q')" by blast
    show ?thesis
      using q(2,3) q' a nm p0(2) by (intro exI[of _ q']) simp
  qed
qed

lemma handler_more_cookie_run:
  assumes "cookie_state p cs i" "i < length cs" "length cs < 65536"
  shows "\<exists>p'. handler_more D now srv r p
                = Some (fst (candidates_result (candidate_outcome D now srv r) (drop i cs)), p')
            \<and> attempts (err_log p')
                = attempts (err_log p) @ snd (candidates_result (candidate_outcome D now srv r) (drop i cs))"
  using assms
proof (induction "length cs - i" arbitrary: i p rule: less_induct)
  case less
  let ?f = "candidate_outcome D now srv r"
  let ?p0 = "p\<lparr>encrypt_string := cs ! i\<rparr>"
  have bi: "ngx_http_pta_build_info r p = build_info_decode ?p0"
    using less.prems(1,2) by (rule build_info_cookie)
  have c0: "cookie_state ?p0 cs i" using less.prems(1) by (simp add: cookie_state_def)
  from handler_more_cookie_step[OF bi c0 _ less.prems(2,3) refl, of D now srv]
  obtain p' where p': "attempts (err_log p')
              = attempts (err_log p) @ (if ?f (cs ! i) = Malformed then [] else [cs ! i])"
    "if advancing (?f (cs ! i)) \<and> i + 1 < length cs
            then cookie_state p' cs (i + 1)
                 \<and> handler_more D now srv r p = handler_more D now srv r p'
            else handler_more D now srv r p = Some (final_ret (?f (cs ! i)), p')"
    by auto
  have d: "drop i cs = cs ! i # drop (Suc i) cs"
    using less.prems(2) by (simp add: Cons_nth_drop_Suc)
  show ?case
  proof (cases "i + 1 < length cs")
    case True
    then have d1: "drop (Suc i) cs = cs ! Suc i # drop (Suc (Suc i)) cs"
      by (simp add: Cons_nth_drop_Suc)
    show ?thesis
    proof (cases "advancing (?f (cs ! i))")
      case a: True
      then have nm: "?f (cs ! i) \<noteq> Malformed" by (auto simp add: advancing_def)
      from p'(2) a True have c1: "cookie_state p' cs (i + 1)"
        and h: "handler_more D now srv r p = handler_more D now srv r p'" by simp_all
      have "length cs - (i + 1) < length cs - i" using True by arith
      from less.hyps[OF this c1 True less.prems(3)] obtain p'' where
        "handler_more D now srv r p' = Some (fst (candidates_result ?f (drop (i + 1) cs)), p'')"
        "attempts (err_log p'') = attempts (err_log p') @ snd (candidates_result ?f (drop (i + 1) cs))"
        by blast
      then show ?thesis
        using h p'(1) a nm unfolding d by (intro exI[of _ p'']) (simp add: d1)
    next
      case False
      with p' show ?thesis unfolding d d1 by (intro exI[of _ p']) simp
    qed
  next
    case False
    then have "drop (Suc i) cs = []" by simp
    with False p' show ?thesis unfolding d by (intro exI[of _ p']) simp
  qed
qed

lemma candidates_result_split:
  assumes "\<forall>x \<in> set pre. advancing (f x)" "\<not> advancing (f c) \<or> post = []"
  shows "candidates_result f (pre @ c # post)
           = (final_ret (f c), pre @ (if f c = Malformed then [] else [c]))"
  using assms(1)
proof (induction pre)
  case Nil
  show ?case using assms(2) by (cases post) auto
next
  case (Cons x pre)
  obtain y ys where y: "pre @ c # post = y # ys" by (cases "pre @ c # post") auto
  have "candidates_result f (x # y # ys)
      = (fst (candidates_result f (y # ys)), x # snd (candidates_result f (y # ys)))"
    using Cons.prems by simp
  then show ?case using Cons y by simp
qed

lemma handler_more_build_eq:
  assumes "ngx_http_pta_build_info r p = ngx_http_pta_build_info r p'"
  shows "handler_more D now srv r p = handler_more D now srv r p'"
proof -
  have "decrypt_again D srv r p = decrypt_again D srv r p'"
    by (simp add: decrypt_again_def assms)
  then have "ngx_http_pta_decrypt D srv r p = ngx_http_pta_decrypt D srv r p'"
    by (subst ngx_http_pta_decrypt.simps[of D srv r p],
        subst ngx_http_pta_decrypt.simps[of D srv r p']) simp
  then show ?thesis by (rule handler_more_decrypt_eq)
qed

lemma build_info_cookie_first:
  assumes "auth_type p = NGX_IIJPTA_AUTH_COOKIE" "encrypt_data_array p = None"
    and "ngx_http_pta_parse_cookie_header (cookies r) QUERY_PARAM = cs" "cs \<noteq> []"
  shows "ngx_http_pta_build_info r p
           = ngx_http_pta_build_info r (p\<lparr>encrypt_data_array := Some cs\<rparr>)"
  using assms
  by (simp add: ngx_http_pta_build_info_def ngx_http_pta_set_encrypt_data_array_def Let_def
      NGX_IIJPTA_AUTH_QS_def NGX_IIJPTA_AUTH_COOKIE_def NGX_OK_def)

lemma init_auth_type_cookie:
  assumes "pta_auth_method loc = NGX_IIJPTA_AUTH_COOKIE"
  shows "ngx_http_pta_init_auth_type loc pta_zero = pta_zero\<lparr>auth_type := NGX_IIJPTA_AUTH_COOKIE\<rparr>"
  using assms
  by (simp add: ngx_http_pta_init_auth_type_def NGX_IIJPTA_AUTH_QS_def NGX_IIJPTA_AUTH_COOKIE_def)

lemma handler_enabled:
  assumes "pta_onoff loc" "\<not> internal r"
  shows "ngx_http_pta_handler D now (Some srv) (Some loc) r
           = handler_more D now srv r (ngx_http_pta_init_auth_type loc pta_zero)"
  using assms by (simp add: ngx_http_pta_handler_def)

lemma handler_more_cookie_first:
  assumes p: "auth_type p = NGX_IIJPTA_AUTH_COOKIE" "encrypt_data_array p = None"
      "encrypt_data_array_idx p = 0"
    and cs: "ngx_http_pta_parse_cookie_header (cookies r) QUERY_PARAM = cs" "cs \<noteq> []"
      "length cs < 65536"
  shows "\<exists>p'. handler_more D now srv r p
                = Some (fst (candidates_result (candidate_outcome D now srv r) cs), p')
            \<and> attempts (err_log p')
                = attempts (err_log p) @ snd (candidates_result (candidate_outcome D now srv r) cs)"
proof -
  let ?p1 = "p\<lparr>encrypt_data_array := Some cs\<rparr>"
  have "handler_more D now srv r p = handler_more D now srv r ?p1"
    using build_info_cookie_first[OF p(1,2) cs(1,2)] by (rule handler_more_build_eq)
  moreover have "cookie_state ?p1 cs 0" using p by (simp add: cookie_state_def)
  moreover have "0 < length cs" using cs(2) by simp
  ultimately show ?thesis
    using handler_more_cookie_run[of ?p1 cs 0 D now srv r] cs(3) by simp
qed

lemma parse_cookie_header_append:
  "ngx_http_pta_parse_cookie_header (hs @ hs') name
     = ngx_http_pta_parse_cookie_header hs name @ ngx_http_pta_parse_cookie_header hs' name"
  by (simp add: ngx_http_pta_parse_cookie_header_def)

lemma length_token_plain: "length (token_plain d pat pad) = 12 + length pat + pad"
  by (simp add: token_plain_def length_htobe32 length_htobe64)

lemma token_plain_last:
  assumes "0 < pad"
  shows "token_plain d pat pad ! (length (token_plain d pat pad) - 1) = of_nat pad"
proof -
  let ?h = "htobe32 (ngx_crc32_long (htobe64 d @ pat)) @ htobe64 d @ pat"
  have t: "token_plain d pat pad = ?h @ replicate pad (of_nat pad)"
    by (simp add: token_plain_def)
  have lh: "length ?h = 12 + length pat" by (simp add: length_htobe32 length_htobe64)
  have "length (token_plain d pat pad) - 1 = length ?h + (pad - 1)"
    using assms lh by (simp add: length_token_plain)
  then have "token_plain d pat pad ! (length (token_plain d pat pad) - 1)
      = replicate pad (of_nat pad) ! (pad - 1)"
    unfolding t by (metis nth_append_length_plus)
  also have "\<dots> = of_nat pad" using assms by (intro nth_replicate) simp
  finally show ?thesis .
qed

lemma unat_pad:
  assumes "pad \<le> 16"
  shows "unat (of_nat pad :: byte) = pad"
  by (rule of_nat_inverse[OF refl]) (use assms in simp)

lemma token_plain_fields:
  assumes "0 < pad"
  shows "url (decrypt_data (plain_pta pta (token_plain d pat pad)))
           = pat @ of_nat pad # replicate (pad - 1) (of_nat pad)"
    and "padding_val (decrypt_data (plain_pta pta (token_plain d pat pad))) = of_nat pad"
proof -
  obtain k where k: "pad = Suc k" using assms by (cases pad) auto
  show "url (decrypt_data (plain_pta pta (token_plain d pat pad)))
           = pat @ of_nat pad # replicate (pad - 1) (of_nat pad)"
    by (simp add: plain_pta_fields token_plain_def k length_htobe32 length_htobe64)
  show "padding_val (decrypt_data (plain_pta pta (token_plain d pat pad))) = of_nat pad"
    using token_plain_last[OF assms] by (simp add: plain_pta_fields)
qed

lemma token_plain_deadline:
  "ngx_http_pta_check_deadline now (plain_pta pta (token_plain d pat pad))
     = (if sint now > sint d then 1 else 0)"
  unfolding token_plain_def
  by (simp add: ngx_http_pta_check_deadline_def deadline_plain length_htobe32 be64_roundtrip)

lemma token_plain_crc:
  assumes "0 < pad" "pad \<le> 16" "length pat \<le> 8184"
  shows "ngx_http_pta_check_crc (plain_pta pta (token_plain d pat pad)) = Ret 0"
proof -
  let ?out = "token_plain d pat pad"
  have l: "length ?out = 12 + length pat + pad" by (rule length_token_plain)
  have l64: "length ?out < 2 ^ 64" unfolding l using assms by simp
  have p: "?out ! (length ?out - 1) = of_nat pad" by (rule token_plain_last[OF assms(1)])
  have u: "unat (of_nat pad :: byte) = pad" by (rule unat_pad[OF assms(2)])
  have w: "\<not> (of_nat pad :: byte) < 1" "\<not> 16 < (of_nat pad :: byte)"
    using assms(1,2) u by (simp_all add: word_less_nat_alt)
  have n: "length ?out - 12 - pad = length pat" unfolding l by simp
  have t4: "take 4 ?out = htobe32 (ngx_crc32_long (htobe64 d @ pat))"
    by (simp add: token_plain_def length_htobe32)
  have d8: "take 8 (drop 4 ?out) = htobe64 d"
    by (simp add: token_plain_def length_htobe32 length_htobe64)
  have un: "take (length pat) (drop 12 ?out) = pat"
    by (simp add: token_plain_def length_htobe32 length_htobe64)
  show ?thesis
    unfolding check_crc_cases[OF l64] Let_def p u n t4 d8 un be32_roundtrip
    using w assms(3) l by (simp add: NGX_OK_def)
qed

lemma zero_plain_crc:
  assumes "0 < n" "n < 2 ^ 64"
  shows "ngx_http_pta_check_crc (plain_pta pta (replicate n 0)) = Ret 1"
proof -
  have l64: "length (replicate n (0::byte)) < 2 ^ 64" using assms by simp
  have p: "replicate n (0::byte) ! (length (replicate n (0::byte)) - 1) = 0"
    using assms by simp
  show ?thesis
    unfolding check_crc_cases[OF l64] Let_def p by simp
qed

lemma key_plain_eval:
  assumes "ngx_http_pta_hex2bin (if idx = 0 then key_1st srv else key_2nd srv) = Some k"
    and "ngx_http_pta_hex2bin (if idx = 0 then iv_1st srv else iv_2nd srv) = Some v"
    and "EVP_decrypt D k v data = Some out" "data \<noteq> []"
  shows "key_plain D srv data idx =
           (case ngx_http_pta_check_crc (plain_pta pta_zero out) of
              Fault f \<Rightarrow> KP_Fault f
            | Ret c \<Rightarrow> if c = 0 then KP_Accept out else KP_Reject out)"
proof -
  have "length data mod 16 = 0" using assms(3) by (rule EVP_decrypt_blocks)
  moreover have "0 < length data" using assms(4) by simp
  ultimately have "16 \<le> length data" by arith
  then have "\<not> length out < 12" using length_EVP_decrypt[OF assms(3)] by simp
  then show ?thesis
    using assms(1,2,3) by (simp add: key_plain_def)
qed

lemma key_plain_1st:
  assumes "ngx_http_pta_hex2bin (key_1st srv) = Some k" "ngx_http_pta_hex2bin (iv_1st srv) = Some v"
    and "EVP_decrypt D k v data = Some out" "data \<noteq> []"
  shows "key_plain D srv data 0 =
           (case ngx_http_pta_check_crc (plain_pta pta_zero out) of
              Fault f \<Rightarrow> KP_Fault f
            | Ret c \<Rightarrow> if c = 0 then KP_Accept out else KP_Reject out)"
  using assms by (intro key_plain_eval) simp_all

lemma key_plain_2nd:
  assumes "ngx_http_pta_hex2bin (key_2nd srv) = Some k" "ngx_http_pta_hex2bin (iv_2nd srv) = Some v"
    and "EVP_decrypt D k v data = Some out" "data \<noteq> []"
  shows "key_plain D srv data (Suc 0) =
           (case ngx_http_pta_check_crc (plain_pta pta_zero out) of
              Fault f \<Rightarrow> KP_Fault f
            | Ret c \<Rightarrow> if c = 0 then KP_Accept out else KP_Reject out)"
  using assms by (intro key_plain_eval) simp_all

lemma EVP_lookup:
  assumes "length data mod 16 = 0"
  shows "EVP_decrypt (lookup_cipher tbl) k v data =
     Some (case map_of tbl (k, data) of
             None \<Rightarrow> replicate (length data) 0
           | Some p \<Rightarrow> take (length data) p @ replicate (length data - length p) 0)"
  using assms by (simp add: EVP_decrypt_def lookup_cipher_def split: option.splits)

lemma ex_hex:
  "ngx_http_pta_hex2bin (replicate 32 0x30) = Some (replicate 16 0)"
  "ngx_http_pta_hex2bin (replicate 32 0x31) = Some (replicate 16 0x11)"
  "hex2bin_loop (replicate 32 0x61) = replicate 16 0xaa"
  "hex2bin_loop (replicate 32 0x62) = replicate 16 0xbb"
  "hex2bin_loop (replicate 32 0x63) = replicate 16 0xcc"
  "hex2bin_loop (replicate 32 0x64) = replicate 16 0xdd"
  by code_simp+

lemma ex_keys:
  "ngx_http_pta_hex2bin (key_1st ex_srv) = Some (replicate 16 0)"
  "ngx_http_pta_hex2bin (iv_1st ex_srv) = Some (replicate 16 0)"
  "ngx_http_pta_hex2bin (key_2nd ex_srv) = Some (replicate 16 0x11)"
  "ngx_http_pta_hex2bin (iv_2nd ex_srv) = Some (replicate 16 0x11)"
  by (simp_all add: ex_srv_def ex_hex)

lemma ex_cipher_zero:
  "EVP_decrypt ex_cipher (replicate 16 0) v (replicate 16 0xaa) = Some (replicate 16 0)"
  "EVP_decrypt ex_cipher (replicate 16 0x11) v (replicate 16 0xaa) = Some (replicate 16 0)"
  "EVP_decrypt ex_cipher (replicate 16 0) v (replicate 16 0xcc) = Some (replicate 16 0)"
  by (simp_all add: EVP_lookup ex_cipher_def)

lemma ex_cipher_token:
  "EVP_decrypt ex_cipher (replicate 16 0x11) v (replicate 16 0xcc)
     = Some (token_plain 2000 (bytes_of ''/*'') 2)"
  "EVP_decrypt ex_cipher (replicate 16 0) v (replicate 16 0xbb)
     = Some (token_plain 2000 (bytes_of ''/ab'') 1)"
  "EVP_decrypt ex_cipher (replicate 16 0) v (replicate 16 0xdd)
     = Some (token_plain 1000 (bytes_of ''/*'') 2)"
  by (simp_all add: EVP_lookup ex_cipher_def length_token_plain bytes_of_def)

lemma ex_key_plain:
  "key_plain ex_cipher ex_srv (replicate 16 0xaa) 0 = KP_Reject (replicate 16 0)"
  "key_plain ex_cipher ex_srv (replicate 16 0xaa) (Suc 0) = KP_Reject (replicate 16 0)"
  "key_plain ex_cipher ex_srv (replicate 16 0xbb) 0
     = KP_Accept (token_plain 2000 (bytes_of ''/ab'') 1)"
  "key_plain ex_cipher ex_srv (replicate 16 0xcc) 0 = KP_Reject (replicate 16 0)"
  "key_plain ex_cipher ex_srv (replicate 16 0xcc) (Suc 0)
     = KP_Accept (token_plain 2000 (bytes_of ''/*'') 2)"
  "key_plain ex_cipher ex_srv (replicate 16 0xdd) 0
     = KP_Accept (token_plain 1000 (bytes_of ''/*'') 2)"
proof -
  show "key_plain ex_cipher ex_srv (replicate 16 0xaa) 0 = KP_Reject (replicate 16 0)"
    using key_plain_1st[OF ex_keys(1,2) ex_cipher_zero(1)] by (simp add: zero_plain_crc)
  show "key_plain ex_cipher ex_srv (replicate 16 0xaa) (Suc 0) = KP_Reject (replicate 16 0)"
    using key_plain_2nd[OF ex_keys(3,4) ex_cipher_zero(2)] by (simp add: zero_plain_crc)
  show "key_plain ex_cipher ex_srv (replicate 16 0xbb) 0
     = KP_Accept (token_plain 2000 (bytes_of ''/ab'') 1)"
    using key_plain_1st[OF ex_keys(1,2) ex_cipher_token(2)]
    by (simp add: token_plain_crc bytes_of_def)
  show "key_plain ex_cipher ex_srv (replicate 16 0xcc) 0 = KP_Reject (replicate 16 0)"
    using key_plain_1st[OF ex_keys(1,2) ex_cipher_zero(3)] by (simp add: zero_plain_crc)
  show "key_plain ex_cipher ex_srv (replicate 16 0xcc) (Suc 0)
     = KP_Accept (token_plain 2000 (bytes_of ''/*'') 2)"
    using key_plain_2nd[OF ex_keys(3,4) ex_cipher_token(1)]
    by (simp add: token_plain_crc bytes_of_def)
  show "key_plain ex_cipher ex_srv (replicate 16 0xdd) 0
     = KP_Accept (token_plain 1000 (bytes_of ''/*'') 2)"
    using key_plain_1st[OF ex_keys(1,2) ex_cipher_token(3)]
    by (simp add: token_plain_crc bytes_of_def)
qed

lemma ex_keys_plain:
  "keys_plain ex_cipher ex_srv (replicate 16 0xaa) = KP_Reject (replicate 16 0)"
  "keys_plain ex_cipher ex_srv (replicate 16 0xbb) = KP_Accept (token_plain 2000 (bytes_of ''/ab'') 1)"
  "keys_plain ex_cipher ex_srv (replicate 16 0xcc) = KP_Accept (token_plain 2000 (bytes_of ''/*'') 2)"
  "keys_plain ex_cipher ex_srv (replicate 16 0xdd) = KP_Accept (token_plain 1000 (bytes_of ''/*'') 2)"
  by (simp_all add: keys_plain_def ex_key_plain)

text \<open>A byte of the pattern that differs from the byte at \<open>r->uri.data\<close>, be that a byte
  of the path or the byte behind it: the scan returns 1.\<close>

lemma check_url_literal_mismatch:
  assumes "url (decrypt_data pta) = lit @ c # x # rest"
    and "padding_val (decrypt_data pta) = pad" "1 \<le> pad" "pad \<le> 16"
    and "pad \<notin> set lit" "0x2a \<notin> set lit" "c \<noteq> pad" "c \<noteq> 0x2a" "c \<noteq> 0x5c"
    and "uri r @ uri_after r = lit @ b # mrest" "b \<noteq> c"
  shows "fst (ngx_http_pta_check_url r pta) = Ret 1"
proof -
  let ?u = "url (decrypt_data pta)"
  have p: "pad \<noteq> 0x2a" using assms(4) by auto
  have np: "\<not> (pad < 1 \<or> 16 < pad)"
    by (simp only: not_less de_Morgan_disj assms(3,4))
  have "check_url_loop r pta False (length ([] :: byte list)) (length ([] :: byte list))
      = check_url_loop r pta False (length ([] @ lit)) (length ([] @ lit))"
    by (rule check_url_loop_prefix[of pta "[]" lit c "x # rest" pad r "[]" "b # mrest"])
       (use assms p in simp_all)
  moreover have "fst (check_url_loop r pta False (length lit) (length lit)) = Ret 1"
  proof -
    have u: "?u ! length lit = c" "\<not> length ?u \<le> length lit" "\<not> length ?u \<le> length lit + 1"
      using assms(1) by (simp_all add: nth_append)
    have m: "uri_data r (length lit) = Some b" using assms(10) by (rule uri_data_mem)
    show ?thesis
      using u m assms(2,7,8,9,11)
      by (subst check_url_loop.simps) (simp add: Let_def)
  qed
  ultimately show ?thesis
    using np by (simp add: ngx_http_pta_check_url_def assms(2))
qed

lemma ex_check_url:
  assumes "uri r = bytes_of ''/a''"
  shows "fst (ngx_http_pta_check_url r (plain_pta pta_zero (token_plain d (bytes_of ''/*'') 2))) = Ret 0"
    and "uri_after r = 0x20 # m \<Longrightarrow>
      fst (ngx_http_pta_check_url r (plain_pta pta_zero (token_plain d (bytes_of ''/ab'') 1))) = Ret 1"
proof -
  let ?pta = "plain_pta pta_zero (token_plain d (bytes_of ''/*'') 2)"
  have f: "url (decrypt_data ?pta) = [0x2f] @ 0x2a # [] @ 2 # [2]"
    "padding_val (decrypt_data ?pta) = 2"
    using token_plain_fields[of 2 pta_zero d "bytes_of ''/*''"]
    by (simp_all add: bytes_of_def)
  have u: "uri r = [0x2f] @ [0x61]" using assms by (simp add: bytes_of_def)
  have "fst (ngx_http_pta_check_url r ?pta) = Ret 0 \<longleftrightarrow>
           ([] :: byte list) = [] \<or> (length ([] :: byte list) \<le> length [0x61 :: byte] \<and>
                        drop (length (uri r) - length ([] :: byte list)) (uri r) = [])"
    by (rule check_url_wildcard_general[OF f]) (simp_all add: u)
  then show "fst (ngx_http_pta_check_url r ?pta) = Ret 0" by simp
next
  let ?pta = "plain_pta pta_zero (token_plain d (bytes_of ''/ab'') 1)"
  have f: "url (decrypt_data ?pta) = [0x2f, 0x61] @ 0x62 # 1 # []"
    "padding_val (decrypt_data ?pta) = 1"
    using token_plain_fields[of 1 pta_zero d "bytes_of ''/ab''"]
    by (simp_all add: bytes_of_def)
  assume "uri_after r = 0x20 # m"
  then have m: "uri r @ uri_after r = [0x2f, 0x61] @ 0x20 # m"
    using assms by (simp add: bytes_of_def)
  show "fst (ngx_http_pta_check_url r ?pta) = Ret 1"
    by (rule check_url_literal_mismatch[OF f _ _ _ _ _ _ _ m]) simp_all
qed

lemma ex_outcomes:
  "candidate_outcome ex_cipher 1500 ex_srv r (replicate 32 0x61) = IntegrityFailed"
  "candidate_outcome ex_cipher 1500 ex_srv r (replicate 32 0x64) = Expired"
  "uri r = bytes_of ''/a'' \<Longrightarrow> uri_after r = 0x20 # m \<Longrightarrow>
     candidate_outcome ex_cipher 1500 ex_srv r (replicate 32 0x62) = UrlMismatch"
  "uri r = bytes_of ''/a'' \<Longrightarrow>
     candidate_outcome ex_cipher 1500 ex_srv r (replicate 32 0x63) = Authorized"
  "candidate_outcome ex_cipher 1500 ex_srv r (replicate 31 0x61) = Malformed"
proof -
  show "candidate_outcome ex_cipher 1500 ex_srv r (replicate 32 0x61) = IntegrityFailed"
    by (simp add: candidate_outcome_def ex_hex ex_keys_plain)
  show "candidate_outcome ex_cipher 1500 ex_srv r (replicate 32 0x64) = Expired"
    by (simp add: candidate_outcome_def ex_hex ex_keys_plain token_plain_deadline)
  show "candidate_outcome ex_cipher 1500 ex_srv r (replicate 32 0x62) = UrlMismatch"
    if "uri r = bytes_of ''/a''" "uri_after r = 0x20 # m"
    using ex_check_url(2)[OF that, of 2000]
    by (simp add: candidate_outcome_def ex_hex ex_keys_plain token_plain_deadline)
  show "candidate_outcome ex_cipher 1500 ex_srv r (replicate 32 0x63) = Authorized"
    if "uri r = bytes_of ''/a''"
    using ex_check_url(1)[OF that, of 2000]
    by (simp add: candidate_outcome_def ex_hex ex_keys_plain token_plain_deadline)
  show "candidate_outcome ex_cipher 1500 ex_srv r (replicate 31 0x61) = Malformed"
    by (simp add: candidate_outcome_def)
qed

lemma strncasecmp_name:
  "ngx_strncasecmp (QUERY_PARAM @ x) QUERY_PARAM (length QUERY_PARAM) = 0"
  by (simp add: QUERY_PARAM_def numeral_3_eq_3 byte_at_def ngx_tolower_def)

lemma skip_cookie_value:
  assumes "0x3b \<notin> set v"
  shows "skip_cookie (v @ 0x3b # rest) = dropWhile (\<lambda>c. c = 0x20) rest"
proof -
  have "dropWhile (\<lambda>c. c \<noteq> 0x3b) (v @ 0x3b # rest) = 0x3b # rest"
    using assms by (induction v) auto
  then show ?thesis by (simp add: skip_cookie_def)
qed

lemma parse_cookie_value_first:
  assumes "0x3b \<notin> set v" "v \<noteq> []" "hd v \<noteq> 0x20"
    and "ngx_strncasecmp (v @ 0x3b # rest) QUERY_PARAM (length QUERY_PARAM) \<noteq> 0"
  shows "parse_cookie_value QUERY_PARAM (QUERY_PARAM @ 0x3d # v @ 0x3b # rest)
           = v # parse_cookie_value QUERY_PARAM (dropWhile (\<lambda>c. c = 0x20) rest)"
proof -
  let ?s2 = "v @ 0x3b # rest"
  have d: "dropWhile (\<lambda>c. c = 0x20) ?s2 = ?s2"
    using assms(2,3) by (cases v) simp_all
  have t: "takeWhile (\<lambda>c. c \<noteq> 0x3b) ?s2 = v"
    using assms(1) by (induction v) auto
  have n: "parse_cookie_value QUERY_PARAM ?s2
      = parse_cookie_value QUERY_PARAM (dropWhile (\<lambda>c. c = 0x20) rest)"
    by (subst parse_cookie_value.simps) (simp add: assms(4) skip_cookie_value[OF assms(1)])
  show ?thesis
    by (subst parse_cookie_value.simps) (simp add: strncasecmp_name d t n Let_def)
qed


lemma strncasecmp_other:
  assumes "s \<noteq> []" "ngx_tolower (hd s) \<noteq> 0x70"
  shows "ngx_strncasecmp s QUERY_PARAM (length QUERY_PARAM) \<noteq> 0"
proof -
  obtain c s' where s: "s = c # s'" using assms(1) by (cases s) auto
  have t: "ngx_tolower 0x70 = (0x70 :: byte)" by (simp add: ngx_tolower_def)
  have "uint (ngx_tolower c) - uint (0x70 :: byte) \<noteq> 0"
    using assms(2) s by (simp only: uint_diff_0 list.sel not_False_eq_True)
  then show ?thesis
    using assms(2) s t
    by (simp add: QUERY_PARAM_def numeral_3_eq_3 byte_at_def Let_def)
qed

lemma parse_cookie_value_Nil: "parse_cookie_value name [] = []"
  by (subst parse_cookie_value.simps) simp

lemma skip_cookie_last:
  assumes "0x3b \<notin> set v"
  shows "skip_cookie v = []"
proof -
  have e: "dropWhile (\<lambda>c. c \<noteq> 0x3b) v = []" using assms by (induction v) auto
  show ?thesis unfolding skip_cookie_def e by simp
qed

lemma parse_cookie_value_last:
  assumes "0x3b \<notin> set v" "v \<noteq> []" "hd v \<noteq> 0x20" "ngx_tolower (hd v) \<noteq> 0x70"
  shows "parse_cookie_value QUERY_PARAM (QUERY_PARAM @ 0x3d # v) = [v]"
proof -
  have d: "dropWhile (\<lambda>c. c = 0x20) v = v"
    using assms(2,3) by (cases v) simp_all
  have t: "takeWhile (\<lambda>c. c \<noteq> 0x3b) v = v"
    using assms(1) by (induction v) auto
  have n: "parse_cookie_value QUERY_PARAM v = []"
    by (subst parse_cookie_value.simps)
       (simp add: strncasecmp_other[OF assms(2,4)] skip_cookie_last[OF assms(1)]
          parse_cookie_value_Nil)
  show ?thesis
    using strncasecmp_name[of "0x3d # v"]
    by (subst parse_cookie_value.simps) (simp add: d t n Let_def)
qed

lemma parse_cookie_value_other:
  assumes "0x3b \<notin> set n" "0x3b \<notin> set v" "n \<noteq> []" "ngx_tolower (hd n) \<noteq> 0x70"
  shows "parse_cookie_value QUERY_PARAM (n @ 0x3d # v) = []"
    and "parse_cookie_value QUERY_PARAM (n @ 0x3d # v @ 0x3b # rest)
           = parse_cookie_value QUERY_PARAM (dropWhile (\<lambda>c. c = 0x20) rest)"
proof -
  have h: "hd (n @ x) = hd n" for x using assms(3) by simp
  have ne: "ngx_strncasecmp (n @ x) QUERY_PARAM (length QUERY_PARAM) \<noteq> 0" for x
    by (rule strncasecmp_other) (use assms(3,4) h in simp_all)
  have "0x3b \<notin> set (n @ 0x3d # v)" using assms(1,2) by simp
  from skip_cookie_last[OF this] ne[of "0x3d # v"]
  show "parse_cookie_value QUERY_PARAM (n @ 0x3d # v) = []"
    by (subst parse_cookie_value.simps) (simp add: parse_cookie_value_Nil assms(3))
  have "0x3b \<notin> set (n @ 0x3d # v)" using assms(1,2) by simp
  from skip_cookie_value[OF this, of rest] ne[of "0x3d # v @ 0x3b # rest"]
  show "parse_cookie_value QUERY_PARAM (n @ 0x3d # v @ 0x3b # rest)
           = parse_cookie_value QUERY_PARAM (dropWhile (\<lambda>c. c = 0x20) rest)"
    by (subst parse_cookie_value.simps) (simp add: assms(3))
qed

lemma cookie_header_start:
  assumes "cookie_pair_ok nv"
  shows "dropWhile (\<lambda>c. c = 0x20) (0x20 # cookie_header (nv # ps)) = cookie_header (nv # ps)"
proof -
  have "fst nv \<noteq> [] \<and> hd (fst nv) \<noteq> 0x20"
    using assms by (auto simp add: cookie_pair_ok_def QUERY_PARAM_def)
  then obtain c n' where "fst nv = c # n'" "c \<noteq> 0x20" by (cases "fst nv") auto
  then show ?thesis by (cases ps) simp_all
qed

text \<open>The values of the \<open>pta\<close> cookies of one header, in the order of occurrence.\<close>

lemma parse_cookie_value_header:
  assumes "\<forall>nv \<in> set ps. cookie_pair_ok nv"
  shows "parse_cookie_value QUERY_PARAM (cookie_header ps) = pta_values ps"
  using assms
proof (induction ps rule: cookie_header.induct)
  case 1
  show ?case by (simp add: parse_cookie_value_Nil pta_values_def)
next
  case (2 nv)
  then have ok: "cookie_pair_ok nv" by simp
  show ?case
  proof (cases "fst nv = QUERY_PARAM")
    case True
    with ok parse_cookie_value_last[of "snd nv"] show ?thesis
      by (simp add: cookie_pair_ok_def pta_values_def)
  next
    case False
    with ok parse_cookie_value_other(1)[of "fst nv" "snd nv"] show ?thesis
      by (simp add: cookie_pair_ok_def pta_values_def)
  qed
next
  case (3 nv nv' ps)
  then have ok: "cookie_pair_ok nv" "cookie_pair_ok nv'" by simp_all
  have IH: "parse_cookie_value QUERY_PARAM (cookie_header (nv' # ps)) = pta_values (nv' # ps)"
    by (rule "3.IH") (use "3.prems" in simp)
  note st = cookie_header_start[OF ok(2), of ps]
  show ?case
  proof (cases "fst nv = QUERY_PARAM")
    case True
    have v: "0x3b \<notin> set (snd nv)" "snd nv \<noteq> []" "hd (snd nv) \<noteq> 0x20"
      using ok(1) by (simp_all add: cookie_pair_ok_def)
    have "ngx_strncasecmp (snd nv @ 0x3b # 0x20 # cookie_header (nv' # ps)) QUERY_PARAM
        (length QUERY_PARAM) \<noteq> 0"
      by (rule strncasecmp_other) (use ok(1) in \<open>simp_all add: cookie_pair_ok_def\<close>)
    from parse_cookie_value_first[OF v this] True IH st show ?thesis
      by (simp add: pta_values_def)
  next
    case False
    with ok(1) parse_cookie_value_other(2)[of "fst nv" "snd nv" "0x20 # cookie_header (nv' # ps)"] IH st
    show ?thesis
      by (simp add: cookie_pair_ok_def pta_values_def)
  qed
qed

lemma length_cookie_header:
  assumes "nv \<in> set ps"
  shows "length (fst nv) \<le> length (cookie_header ps)"
  using assms by (induction ps rule: cookie_header.induct) auto

lemma parse_cookie_headers:
  assumes "\<forall>ps \<in> set pss. \<forall>nv \<in> set ps. cookie_pair_ok nv"
  shows "ngx_http_pta_parse_cookie_header (map cookie_header pss) QUERY_PARAM
           = concat (map pta_values pss)"
proof -
  have "(if length QUERY_PARAM > length (cookie_header ps) then []
         else parse_cookie_value QUERY_PARAM (cookie_header ps)) = pta_values ps"
    if "ps \<in> set pss" for ps
  proof (cases "length QUERY_PARAM > length (cookie_header ps)")
    case True
    have "filter (\<lambda>nv. fst nv = QUERY_PARAM) ps = []"
    proof (rule ccontr)
      assume "filter (\<lambda>nv. fst nv = QUERY_PARAM) ps \<noteq> []"
      then obtain nv where nv: "nv \<in> set ps" "fst nv = QUERY_PARAM"
        by (metis (mono_tags, lifting) filter_False)
      from length_cookie_header[OF nv(1)] nv(2) True show False by simp
    qed
    with True show ?thesis by (simp add: pta_values_def)
  next
    case False
    with parse_cookie_value_header[of ps] assms that show ?thesis by simp
  qed
  then show ?thesis
    by (simp add: ngx_http_pta_parse_cookie_header_def cong: map_cong)
qed


lemma ex_cookie_pairs_ok: "\<forall>ps \<in> set ex_cookie_pairs. \<forall>nv \<in> set ps. cookie_pair_ok nv"
  by (simp add: ex_cookie_pairs_def cookie_pair_ok_def QUERY_PARAM_def bytes_of_def ngx_tolower_def)

lemma ex_pta_values:
  "concat (map pta_values ex_cookie_pairs)
     = [replicate 32 0x61, replicate 32 0x62] @ replicate 32 0x63 # []"
  by (simp add: ex_cookie_pairs_def pta_values_def QUERY_PARAM_def bytes_of_def)

lemma init_auth_type_both:
  assumes "pta_auth_method loc = NGX_IIJPTA_AUTH_QS + NGX_IIJPTA_AUTH_COOKIE"
  shows "ngx_http_pta_init_auth_type loc pta_zero
           = pta_zero\<lparr>need_fallback_cookie := True, auth_type := NGX_IIJPTA_AUTH_QS\<rparr>"
  using assms
  by (simp add: ngx_http_pta_init_auth_type_def NGX_IIJPTA_AUTH_QS_def NGX_IIJPTA_AUTH_COOKIE_def)

text \<open>The fallback: with the flag set and no \<open>pta\<close> argument the handler goes on in
  cookie mode, the flag cleared.\<close>

lemma handler_more_fallback:
  assumes "auth_type p = NGX_IIJPTA_AUTH_QS" "need_fallback_cookie p" "args_pta r = None"
  shows "handler_more D now srv r p
           = handler_more D now srv r
               (p\<lparr>encrypt_data_array := None, need_fallback_cookie := False,
                   auth_type := NGX_IIJPTA_AUTH_COOKIE\<rparr>)"
proof -
  have "ngx_http_pta_build_info r p = (NGX_HTTP_PTA_FALLBACK, p\<lparr>encrypt_data_array := None\<rparr>)"
    using assms by (simp add: ngx_http_pta_build_info_def)
  then have "decrypt_again D srv r p
      = Goto (p\<lparr>encrypt_data_array := None, need_fallback_cookie := False,
                auth_type := NGX_IIJPTA_AUTH_COOKIE\<rparr>)"
    by (simp add: decrypt_again_def)
  then have "ngx_http_pta_decrypt D srv r p
      = ngx_http_pta_decrypt D srv r
          (p\<lparr>encrypt_data_array := None, need_fallback_cookie := False,
             auth_type := NGX_IIJPTA_AUTH_COOKIE\<rparr>)"
    by (rule decrypt_Goto)
  then show ?thesis by (rule handler_more_decrypt_eq)
qed

text \<open>The handler in cookie mode, entered at once or by the fallback.\<close>

lemma handler_cookie_mode:
  assumes "pta_onoff loc" "\<not> internal r"
    and "pta_auth_method loc = NGX_IIJPTA_AUTH_COOKIE
         \<or> (pta_auth_method loc = NGX_IIJPTA_AUTH_QS + NGX_IIJPTA_AUTH_COOKIE \<and> args_pta r = None)"
  shows "\<exists>p. ngx_http_pta_handler D now (Some srv) (Some loc) r = handler_more D now srv r p
           \<and> auth_type p = NGX_IIJPTA_AUTH_COOKIE \<and> encrypt_data_array p = None
           \<and> encrypt_data_array_idx p = 0 \<and> err_log p = [] \<and> \<not> need_fallback_cookie p"
  using assms(3)
proof
  assume m: "pta_auth_method loc = NGX_IIJPTA_AUTH_COOKIE"
  let ?p = "pta_zero\<lparr>auth_type := NGX_IIJPTA_AUTH_COOKIE\<rparr>"
  have "ngx_http_pta_handler D now (Some srv) (Some loc) r = handler_more D now srv r ?p"
    using handler_enabled[OF assms(1,2)] init_auth_type_cookie[OF m] by simp
  then show ?thesis
    by (intro exI[of _ ?p]) (simp add: pta_zero_def)
next
  assume m: "pta_auth_method loc = NGX_IIJPTA_AUTH_QS + NGX_IIJPTA_AUTH_COOKIE \<and> args_pta r = None"
  let ?q = "pta_zero\<lparr>need_fallback_cookie := True, auth_type := NGX_IIJPTA_AUTH_QS\<rparr>"
  let ?p = "?q\<lparr>encrypt_data_array := None, need_fallback_cookie := False,
                auth_type := NGX_IIJPTA_AUTH_COOKIE\<rparr>"
  have "ngx_http_pta_handler D now (Some srv) (Some loc) r = handler_more D now srv r ?q"
    using handler_enabled[OF assms(1,2)] init_auth_type_both m by simp
  also have "\<dots> = handler_more D now srv r ?p"
    by (rule handler_more_fallback) (use m in simp_all)
  finally show ?thesis
    by (intro exI[of _ ?p]) (simp add: pta_zero_def)
qed

text \<open>
  Claim C8.  Cookie mode is entered at once (method cookie) or by the fallback (both
  methods, no \<open>pta\<close> argument).  The candidates are the \<open>pta\<close> cookie values of the
  Cookie headers, header after header and within a header in the order of occurrence
  (second part of the statement); there are fewer than 65536 of them, the candidate
  index being a \<open>uint16_t\<close>.  If every candidate in \<open>pre\<close> fails with an integrity
  failure under both key pairs, an expired deadline or a URL mismatch, and the
  candidate \<open>c\<close> after them does not fail in that way or is the last one, then the
  handler attempts exactly \<open>pre\<close> and then \<open>c\<close>, in that order, and returns the status
  of \<open>c\<close>: \<open>NGX_DECLINED\<close> (authorized) as soon as \<open>c\<close> passes all checks, whatever
  follows it, and 403 or 410 when the last candidate fails too.
\<close>

theorem cookie_candidates_in_order:
  assumes "pta_onoff loc" "\<not> internal r"
    and "pta_auth_method loc = NGX_IIJPTA_AUTH_COOKIE
         \<or> (pta_auth_method loc = NGX_IIJPTA_AUTH_QS + NGX_IIJPTA_AUTH_COOKIE \<and> args_pta r = None)"
    and "ngx_http_pta_parse_cookie_header (cookies r) QUERY_PARAM = pre @ c # post"
    and "length (pre @ c # post) < 65536"
    and "\<forall>x \<in> set pre. advancing (candidate_outcome D now srv r x)"
    and "\<not> advancing (candidate_outcome D now srv r c) \<or> post = []"
  shows "(\<exists>p. ngx_http_pta_handler D now (Some srv) (Some loc) r
                = Some (final_ret (candidate_outcome D now srv r c), p)
           \<and> attempts (err_log p)
                = pre @ (if candidate_outcome D now srv r c = Malformed then [] else [c]))
       \<and> ((\<forall>ps \<in> set pss. \<forall>nv \<in> set ps. cookie_pair_ok nv) \<longrightarrow>
            ngx_http_pta_parse_cookie_header (map cookie_header pss) QUERY_PARAM
              = concat (map pta_values pss))"
proof -
  from handler_cookie_mode[OF assms(1,2,3), of D now srv] obtain p0 where
    h: "ngx_http_pta_handler D now (Some srv) (Some loc) r = handler_more D now srv r p0"
    and p: "auth_type p0 = NGX_IIJPTA_AUTH_COOKIE" "encrypt_data_array p0 = None"
      "encrypt_data_array_idx p0 = 0" "err_log p0 = []"
    by blast
  have ne: "pre @ c # post \<noteq> []" by simp
  from handler_more_cookie_first[OF p(1,2,3) assms(4) ne assms(5), of D now srv]
  have "\<exists>p. ngx_http_pta_handler D now (Some srv) (Some loc) r
                = Some (final_ret (candidate_outcome D now srv r c), p)
           \<and> attempts (err_log p)
                = pre @ (if candidate_outcome D now srv r c = Malformed then [] else [c])"
    unfolding h candidates_result_split[OF assms(6,7)] using p(4) by simp
  then show ?thesis using parse_cookie_headers[of pss] by blast
qed

theorem cookie_candidates_in_order_witness:
  "ngx_http_pta_parse_cookie_header (cookies ex_request_cookie) QUERY_PARAM
     = [replicate 32 0x61, replicate 32 0x62, replicate 32 0x63]
   \<and> candidate_outcome ex_cipher 1500 ex_srv ex_request_cookie (replicate 32 0x61) = IntegrityFailed
   \<and> candidate_outcome ex_cipher 1500 ex_srv ex_request_cookie (replicate 32 0x62) = UrlMismatch
   \<and> candidate_outcome ex_cipher 1500 ex_srv ex_request_cookie (replicate 32 0x63) = Authorized
   \<and> (\<exists>p. ngx_http_pta_handler ex_cipher 1500 (Some ex_srv) (Some ex_loc_cookie) ex_request_cookie
             = Some (Ret NGX_DECLINED, p)
          \<and> attempts (err_log p) = [replicate 32 0x61, replicate 32 0x62, replicate 32 0x63])
   \<and> (\<exists>p. ngx_http_pta_handler ex_cipher 1500 (Some ex_srv) (Some ex_loc_both) ex_request_cookie
             = Some (Ret NGX_DECLINED, p)
          \<and> attempts (err_log p) = [replicate 32 0x61, replicate 32 0x62, replicate 32 0x63])"
proof -
  let ?r = ex_request_cookie
  have u: "uri ?r = bytes_of ''/a''" "uri_after ?r = 0x20 # bytes_of ''HTTP/1.1''"
    "args_pta ?r = None" "cookies ?r = map cookie_header ex_cookie_pairs"
    by (simp_all add: ex_request_cookie_def bytes_of_def)
  note oc = ex_outcomes(1)[of ?r] ex_outcomes(3)[OF u(1,2)] ex_outcomes(4)[OF u(1)]
  have a: "pta_onoff ex_loc_cookie" "\<not> internal ?r" "pta_onoff ex_loc_both"
    by (simp_all add: ex_loc_cookie_def ex_loc_both_def ex_request_cookie_def)
  have m1: "pta_auth_method ex_loc_cookie = NGX_IIJPTA_AUTH_COOKIE
         \<or> (pta_auth_method ex_loc_cookie = NGX_IIJPTA_AUTH_QS + NGX_IIJPTA_AUTH_COOKIE
            \<and> args_pta ?r = None)"
    by (simp add: ex_loc_cookie_def)
  have m2: "pta_auth_method ex_loc_both = NGX_IIJPTA_AUTH_COOKIE
         \<or> (pta_auth_method ex_loc_both = NGX_IIJPTA_AUTH_QS + NGX_IIJPTA_AUTH_COOKIE
            \<and> args_pta ?r = None)"
    by (simp add: ex_loc_both_def u)
  have l: "length ([replicate 32 0x61, replicate 32 0x62] @ replicate 32 (0x63 :: byte) # []) < 65536"
    by simp
  have adv: "\<forall>x \<in> set [replicate 32 0x61, replicate 32 0x62].
      advancing (candidate_outcome ex_cipher 1500 ex_srv ?r x)"
    by (simp add: oc advancing_def)
  have fin: "\<not> advancing (candidate_outcome ex_cipher 1500 ex_srv ?r (replicate 32 0x63))
      \<or> ([] :: byte list list) = []" by simp
  note t1 = cookie_candidates_in_order[OF a(1,2) m1 _ l adv fin, of ex_cookie_pairs]
  note t2 = cookie_candidates_in_order[OF a(3,2) m2 _ l adv fin, of ex_cookie_pairs]
  have parse: "ngx_http_pta_parse_cookie_header (cookies ?r) QUERY_PARAM
      = [replicate 32 0x61, replicate 32 0x62] @ replicate 32 0x63 # []"
  proof -
    have "ngx_http_pta_parse_cookie_header (cookies ?r) QUERY_PARAM
        = [replicate 32 0x61, replicate 32 0x62] @ replicate 32 0x63 # []
      \<Longrightarrow> ngx_http_pta_parse_cookie_header (map cookie_header ex_cookie_pairs) QUERY_PARAM
          = concat (map pta_values ex_cookie_pairs)"
      using t1 ex_cookie_pairs_ok by blast
    moreover have "ngx_http_pta_parse_cookie_header (cookies ?r) QUERY_PARAM
        = [replicate 32 0x61, replicate 32 0x62] @ replicate 32 0x63 # []"
      using parse_cookie_headers[OF ex_cookie_pairs_ok] by (simp add: u(4) ex_pta_values)
    ultimately show ?thesis by blast
  qed
  from t1[OF parse] t2[OF parse] parse oc show ?thesis
    by (simp add: final_ret_def)
qed

lemma init_auth_type_qs:
  assumes "pta_auth_method loc \<noteq> NGX_IIJPTA_AUTH_COOKIE"
  shows "auth_type (ngx_http_pta_init_auth_type loc pta_zero) = NGX_IIJPTA_AUTH_QS"
    and "err_log (ngx_http_pta_init_auth_type loc pta_zero) = []"
    and "encrypt_data_array (ngx_http_pta_init_auth_type loc pta_zero) = None"
  using assms
  by (simp_all add: ngx_http_pta_init_auth_type_def pta_zero_def)

lemma outcome_odd:
  assumes "length c mod 2 \<noteq> 0"
  shows "candidate_outcome D now srv r c = Malformed"
  using assms by (simp add: candidate_outcome_def)

text \<open>Query-string mode with the \<open>pta\<close> argument present: the one candidate decides.\<close>

lemma handler_more_qs:
  assumes "auth_type p = NGX_IIJPTA_AUTH_QS" "args_pta r = Some c"
  shows "\<exists>p'. handler_more D now srv r p = Some (final_ret (candidate_outcome D now srv r c), p')
            \<and> auth_type p' = NGX_IIJPTA_AUTH_QS \<and> encrypt_data_array p' = None
            \<and> attempts (err_log p')
                = attempts (err_log p) @ (if candidate_outcome D now srv r c = Malformed then [] else [c])"
proof -
  let ?p0 = "p\<lparr>encrypt_data_array := None, encrypt_string := c\<rparr>"
  let ?oc = "candidate_outcome D now srv r c"
  have bi: "ngx_http_pta_build_info r p = build_info_decode ?p0"
    using assms by (rule build_info_qs)
  have oc: "candidate_outcome D now srv r (encrypt_string ?p0) = ?oc" by simp
  have sm: "auth_type p' = NGX_IIJPTA_AUTH_QS \<and> encrypt_data_array p' = None"
    if "same_mode p' ?p0" for p'
    using that assms(1) by (simp add: same_mode_def)
  consider (m) "?oc = Malformed" | (f) "?oc \<noteq> Malformed" "\<not> advancing ?oc" | (a) "advancing ?oc"
    by blast
  then show ?thesis
  proof cases
    case m
    from candidate_malformed[OF bi oc[unfolded m]] m sm show ?thesis
      by (auto simp add: final_ret_def)
  next
    case f
    from candidate_final[OF bi oc f] f(1) sm show ?thesis by auto
  next
    case a
    then have nm: "?oc \<noteq> Malformed" by (auto simp add: advancing_def)
    from candidate_advance[OF bi oc a] obtain q where q: "same_mode q ?p0"
      "attempts (err_log q) = attempts (err_log ?p0) @ [encrypt_string ?p0]"
      "handler_more D now srv r p =
                (case advance ?oc q of
                   Return x p2 \<Rightarrow> Some (x, p2)
                 | Goto p2 \<Rightarrow> handler_more D now srv r p2)" by blast
    have qs: "auth_type q = NGX_IIJPTA_AUTH_QS" "encrypt_data_array q = None"
      using sm[OF q(1)] by simp_all
    have nc: "auth_type q \<noteq> NGX_IIJPTA_AUTH_COOKIE"
      using qs(1) by (simp add: NGX_IIJPTA_AUTH_QS_def NGX_IIJPTA_AUTH_COOKIE_def)
    have "\<exists>q'. advance ?oc q = Return (final_ret ?oc) q' \<and> auth_type q' = NGX_IIJPTA_AUTH_QS
        \<and> encrypt_data_array q' = None \<and> attempts (err_log q') = attempts (err_log q)"
    proof (cases "?oc = IntegrityFailed")
      case True
      then show ?thesis
        using nc qs
        by (simp add: advance_def decrypt_exhausted_def final_ret_def ngx_log_error_def
            attempts_append)
    next
      case False
      then show ?thesis
        using nc qs a
        by (auto simp add: advance_def next_candidate_def final_ret_def advancing_def)
    qed
    then obtain q' where "advance ?oc q = Return (final_ret ?oc) q'"
      "auth_type q' = NGX_IIJPTA_AUTH_QS" "encrypt_data_array q' = None"
      "attempts (err_log q') = attempts (err_log q)" by blast
    with q(2,3) nm show ?thesis by (intro exI[of _ q']) simp
  qed
qed

lemma build_info_cookie_not_fallback:
  assumes "auth_type p = NGX_IIJPTA_AUTH_COOKIE"
  shows "fst (ngx_http_pta_build_info r p) \<noteq> NGX_HTTP_PTA_FALLBACK"
  using assms
  by (auto simp add: ngx_http_pta_build_info_def ngx_http_pta_set_encrypt_data_array_def
      build_info_decode_def Let_def NGX_IIJPTA_AUTH_QS_def NGX_IIJPTA_AUTH_COOKIE_def
      NGX_HTTP_PTA_FALLBACK_def NGX_HTTP_BAD_REQUEST_def NGX_HTTP_INTERNAL_SERVER_ERROR_def
      NGX_OK_def ngx_log_error_def
      split: option.splits if_splits prod.splits)

text \<open>In cookie mode \<open>goto again\<close> is taken only after a candidate was decoded and the
  loop over the key pairs has ended without a plaintext that passes.\<close>

lemma decrypt_again_Goto_cookie:
  assumes "auth_type q = NGX_IIJPTA_AUTH_COOKIE" "decrypt_again D srv r q = Goto q'"
  shows "fst (ngx_http_pta_build_info r q) = 0
       \<and> (\<exists>q1. decrypt_key_loop D srv (snd (ngx_http_pta_build_info r q)) 0 = Continue q1
               \<and> decrypt_exhausted q1 = Goto q')"
proof -
  obtain ret p1 where b: "ngx_http_pta_build_info r q = (ret, p1)"
    by (cases "ngx_http_pta_build_info r q")
  have nf: "ret \<noteq> NGX_HTTP_PTA_FALLBACK"
    using build_info_cookie_not_fallback[OF assms(1), of r] b by simp
  show ?thesis
    using assms(2) nf unfolding decrypt_again_def b
    by (auto split: if_splits key_pass.splits)
qed

text \<open>\<open>goto more\<close> is taken only after \<open>ngx_http_pta_decrypt\<close> has returned 0, from a
  failed deadline or URL check.\<close>

lemma handler_checks_Goto:
  assumes "handler_checks now r x q = Goto q'"
  shows "x = Ret 0
       \<and> (ngx_http_pta_check_deadline now q \<noteq> 0
          \<or> (\<exists>u. fst (ngx_http_pta_check_url r q) = Ret u \<and> u \<noteq> 0))"
  using assms
  by (auto simp add: handler_checks_def split: ret.splits if_splits prod.splits)

lemma ex_cookie_pairs_odd_parse:
  "ngx_http_pta_parse_cookie_header (cookies ex_request_cookie_odd) QUERY_PARAM
     = [replicate 32 0x61] @ replicate 31 0x61 # [replicate 32 0x63]"
proof -
  have ok: "\<forall>ps \<in> set ex_cookie_pairs_odd. \<forall>nv \<in> set ps. cookie_pair_ok nv"
    by (simp add: ex_cookie_pairs_odd_def cookie_pair_ok_def QUERY_PARAM_def ngx_tolower_def)
  have "concat (map pta_values ex_cookie_pairs_odd)
      = [replicate 32 0x61] @ replicate 31 0x61 # [replicate 32 0x63]"
    by (simp add: ex_cookie_pairs_odd_def pta_values_def)
  with parse_cookie_headers[OF ok] show ?thesis
    by (simp add: ex_request_cookie_odd_def)
qed

lemma ex_state_cookie_again:
  "\<exists>q'. decrypt_again ex_cipher ex_srv r ex_state_cookie = Goto q'"
proof -
  let ?cs = "[replicate 32 0x61, replicate 32 (0x63 :: byte)]"
  let ?p0 = "ex_state_cookie\<lparr>encrypt_string := ?cs ! 0\<rparr>"
  have cs: "cookie_state ex_state_cookie ?cs 0"
    by (simp add: cookie_state_def ex_state_cookie_def pta_zero_def)
  have bi: "ngx_http_pta_build_info r ex_state_cookie = build_info_decode ?p0"
    by (rule build_info_cookie[OF cs]) simp
  have nm: "candidate_outcome ex_cipher 1500 ex_srv r (encrypt_string ?p0) \<noteq> Malformed"
    by (simp add: ex_outcomes(1))
  note dec = candidate_decoded[OF bi nm]
  have k: "keys_plain ex_cipher ex_srv (encrypt_data (decoded ?p0)) = KP_Reject (replicate 16 0)"
    unfolding dec(4) by (simp add: ex_hex ex_keys_plain)
  from decrypt_again_built[OF dec(1,2,3), of ex_cipher ex_srv] obtain d where
    d: "decrypt_again ex_cipher ex_srv r ex_state_cookie
        = decrypt_exhausted ((decoded ?p0)\<lparr>decrypt_data := d\<rparr>)"
    unfolding k by auto
  have "cookie_state ((decoded ?p0)\<lparr>decrypt_data := d\<rparr>) ?cs 0"
    using cs by (simp add: cookie_state_def decoded_fields)
  from decrypt_exhausted_cookie[OF this] d show ?thesis by auto
qed

lemma ex_state_expired_more:
  "\<exists>q'. handler_checks 1500 r (Ret 0) ex_state_expired = Goto q'"
proof -
  let ?cs = "[replicate 32 0x61, replicate 32 (0x63 :: byte)]"
  let ?out = "token_plain 1000 (bytes_of ''/*'') 2"
  have l: "length ?out = 16" by (simp add: length_token_plain bytes_of_def)
  have dd: "decrypt_data ex_state_expired = set_decrypt_data ?out (length ?out)"
    unfolding l by (simp add: ex_state_expired_def)
  have e: "ngx_http_pta_check_deadline 1500 (plain_pta pta_zero ?out) \<noteq> 0"
    by (simp add: token_plain_deadline)
  have "cookie_state (ngx_log_error RequestExpired ex_state_expired) ?cs 0"
    by (simp add: cookie_state_def ex_state_expired_def ex_state_cookie_def pta_zero_def
        ngx_log_error_def)
  from next_candidate_cookie[OF this, of 410] obtain q' where
    "next_candidate 410 (ngx_log_error RequestExpired ex_state_expired) = Goto q'" by auto
  then show ?thesis
    unfolding handler_checks_plain[OF dd] using e by simp
qed

text \<open>
  Claim C9.  A candidate with an odd number of hex characters is not decoded: in
  query-string mode the handler returns 400 and no candidate is attempted; in cookie
  mode, reached after the candidates \<open>pre\<close> have failed, it returns 400 too and
  none of the candidates \<open>post\<close> behind it is attempted.  The jumps to the next
  candidate are taken only from later stages: \<open>goto again\<close> in cookie mode only after
  \<open>ngx_http_pta_build_info\<close> has returned 0 and the loop over the key pairs has
  ended with no plaintext accepted, \<open>goto more\<close> only after
  \<open>ngx_http_pta_decrypt\<close> has returned 0, from a failed deadline or URL check.
\<close>

theorem odd_token_malformed:
  "(pta_onoff loc \<and> \<not> internal r \<and> pta_auth_method loc \<noteq> NGX_IIJPTA_AUTH_COOKIE
      \<and> args_pta r = Some c \<and> length c mod 2 \<noteq> 0
    \<longrightarrow> (\<exists>p. ngx_http_pta_handler D now (Some srv) (Some loc) r
                 = Some (Ret NGX_HTTP_BAD_REQUEST, p)
             \<and> attempts (err_log p) = []))
   \<and> (pta_onoff loc \<and> \<not> internal r
      \<and> (pta_auth_method loc = NGX_IIJPTA_AUTH_COOKIE
         \<or> (pta_auth_method loc = NGX_IIJPTA_AUTH_QS + NGX_IIJPTA_AUTH_COOKIE \<and> args_pta r = None))
      \<and> ngx_http_pta_parse_cookie_header (cookies r) QUERY_PARAM = pre @ c # post
      \<and> length (pre @ c # post) < 65536
      \<and> (\<forall>x \<in> set pre. advancing (candidate_outcome D now srv r x))
      \<and> length c mod 2 \<noteq> 0
    \<longrightarrow> (\<exists>p. ngx_http_pta_handler D now (Some srv) (Some loc) r
                 = Some (Ret NGX_HTTP_BAD_REQUEST, p)
             \<and> attempts (err_log p) = pre))
   \<and> (auth_type q = NGX_IIJPTA_AUTH_COOKIE \<and> decrypt_again D srv r q = Goto q'
    \<longrightarrow> fst (ngx_http_pta_build_info r q) = 0
        \<and> (\<exists>q1. decrypt_key_loop D srv (snd (ngx_http_pta_build_info r q)) 0 = Continue q1))
   \<and> (handler_checks now r x q = Goto q'
    \<longrightarrow> x = Ret 0
        \<and> (ngx_http_pta_check_deadline now q \<noteq> 0
           \<or> (\<exists>u. fst (ngx_http_pta_check_url r q) = Ret u \<and> u \<noteq> 0)))"
proof (intro conjI impI)
  assume h: "pta_onoff loc \<and> \<not> internal r \<and> pta_auth_method loc \<noteq> NGX_IIJPTA_AUTH_COOKIE
      \<and> args_pta r = Some c \<and> length c mod 2 \<noteq> 0"
  let ?p = "ngx_http_pta_init_auth_type loc pta_zero"
  have e: "ngx_http_pta_handler D now (Some srv) (Some loc) r = handler_more D now srv r ?p"
    using h by (intro handler_enabled) simp_all
  have i: "auth_type ?p = NGX_IIJPTA_AUTH_QS" "err_log ?p = []"
    using h by (simp_all add: init_auth_type_qs)
  have a: "args_pta r = Some c" using h by simp
  have m: "candidate_outcome D now srv r c = Malformed" using h by (simp add: outcome_odd)
  from handler_more_qs[OF i(1) a, of D now srv]
  show "\<exists>p. ngx_http_pta_handler D now (Some srv) (Some loc) r
                 = Some (Ret NGX_HTTP_BAD_REQUEST, p)
             \<and> attempts (err_log p) = []"
    unfolding e m by (auto simp add: final_ret_def i(2))
next
  assume h: "pta_onoff loc \<and> \<not> internal r
      \<and> (pta_auth_method loc = NGX_IIJPTA_AUTH_COOKIE
         \<or> (pta_auth_method loc = NGX_IIJPTA_AUTH_QS + NGX_IIJPTA_AUTH_COOKIE \<and> args_pta r = None))
      \<and> ngx_http_pta_parse_cookie_header (cookies r) QUERY_PARAM = pre @ c # post
      \<and> length (pre @ c # post) < 65536
      \<and> (\<forall>x \<in> set pre. advancing (candidate_outcome D now srv r x))
      \<and> length c mod 2 \<noteq> 0"
  have m: "candidate_outcome D now srv r c = Malformed" using h by (simp add: outcome_odd)
  then have na: "\<not> advancing (candidate_outcome D now srv r c) \<or> post = []"
    by (simp add: advancing_def)
  have adv: "\<forall>x \<in> set pre. advancing (candidate_outcome D now srv r x)" using h by blast
  have cm: "pta_onoff loc" "\<not> internal r"
    "pta_auth_method loc = NGX_IIJPTA_AUTH_COOKIE
         \<or> (pta_auth_method loc = NGX_IIJPTA_AUTH_QS + NGX_IIJPTA_AUTH_COOKIE \<and> args_pta r = None)"
    "ngx_http_pta_parse_cookie_header (cookies r) QUERY_PARAM = pre @ c # post"
    "length (pre @ c # post) < 65536"
    using h by blast+
  from handler_cookie_mode[OF cm(1,2,3), of D now srv] obtain p0 where
    e: "ngx_http_pta_handler D now (Some srv) (Some loc) r = handler_more D now srv r p0"
    and p: "auth_type p0 = NGX_IIJPTA_AUTH_COOKIE" "encrypt_data_array p0 = None"
      "encrypt_data_array_idx p0 = 0" "err_log p0 = []"
    by blast
  have ne: "pre @ c # post \<noteq> []" by simp
  from handler_more_cookie_first[OF p(1,2,3) cm(4) ne cm(5), of D now srv]
  show "\<exists>p. ngx_http_pta_handler D now (Some srv) (Some loc) r
                 = Some (Ret NGX_HTTP_BAD_REQUEST, p)
             \<and> attempts (err_log p) = pre"
    unfolding e candidates_result_split[OF adv na] m using p(4) by (simp add: final_ret_def)
next
  assume h: "auth_type q = NGX_IIJPTA_AUTH_COOKIE \<and> decrypt_again D srv r q = Goto q'"
  then have g: "fst (ngx_http_pta_build_info r q) = 0
       \<and> (\<exists>q1. decrypt_key_loop D srv (snd (ngx_http_pta_build_info r q)) 0 = Continue q1
               \<and> decrypt_exhausted q1 = Goto q')"
    by (intro decrypt_again_Goto_cookie) simp_all
  then show "fst (ngx_http_pta_build_info r q) = 0" by simp
  from g show "\<exists>q1. decrypt_key_loop D srv (snd (ngx_http_pta_build_info r q)) 0 = Continue q1"
    by blast
next
  assume h: "handler_checks now r x q = Goto q'"
  from handler_checks_Goto[OF h] show "x = Ret 0" by simp
  from handler_checks_Goto[OF h]
  show "ngx_http_pta_check_deadline now q \<noteq> 0
           \<or> (\<exists>u. fst (ngx_http_pta_check_url r q) = Ret u \<and> u \<noteq> 0)" by simp
qed

theorem odd_token_malformed_witness:
  "(\<exists>p. ngx_http_pta_handler ex_cipher 1500 (Some ex_srv) (Some ex_loc_qs)
            (ex_request_qs (replicate 31 0x61)) = Some (Ret NGX_HTTP_BAD_REQUEST, p)
        \<and> attempts (err_log p) = [])
   \<and> ngx_http_pta_parse_cookie_header (cookies ex_request_cookie_odd) QUERY_PARAM
       = [replicate 32 0x61, replicate 31 0x61, replicate 32 0x63]
   \<and> (\<exists>p. ngx_http_pta_handler ex_cipher 1500 (Some ex_srv) (Some ex_loc_cookie)
            ex_request_cookie_odd = Some (Ret NGX_HTTP_BAD_REQUEST, p)
        \<and> attempts (err_log p) = [replicate 32 0x61])
   \<and> (\<exists>q'. decrypt_again ex_cipher ex_srv ex_request_cookie ex_state_cookie = Goto q')
   \<and> fst (ngx_http_pta_build_info ex_request_cookie ex_state_cookie) = 0
   \<and> (\<exists>q'. handler_checks 1500 ex_request_cookie (Ret 0) ex_state_expired = Goto q')
   \<and> ngx_http_pta_check_deadline 1500 ex_state_expired \<noteq> 0"
proof -
  let ?odd = "replicate 31 (0x61 :: byte)"
  obtain q1 where q1: "decrypt_again ex_cipher ex_srv ex_request_cookie ex_state_cookie = Goto q1"
    using ex_state_cookie_again by blast
  obtain q2 where q2: "handler_checks 1500 ex_request_cookie (Ret 0) ex_state_expired = Goto q2"
    using ex_state_expired_more by blast
  have h1: "pta_onoff ex_loc_qs \<and> \<not> internal (ex_request_qs ?odd)
      \<and> pta_auth_method ex_loc_qs \<noteq> NGX_IIJPTA_AUTH_COOKIE
      \<and> args_pta (ex_request_qs ?odd) = Some ?odd \<and> length ?odd mod 2 \<noteq> 0"
    by (simp add: ex_loc_qs_def ex_request_qs_def NGX_IIJPTA_AUTH_QS_def NGX_IIJPTA_AUTH_COOKIE_def)
  have c1: "\<exists>p. ngx_http_pta_handler ex_cipher 1500 (Some ex_srv) (Some ex_loc_qs)
            (ex_request_qs ?odd) = Some (Ret NGX_HTTP_BAD_REQUEST, p)
        \<and> attempts (err_log p) = []"
    using odd_token_malformed[where loc = ex_loc_qs and r = "ex_request_qs ?odd" and c = ?odd
        and D = ex_cipher and now = 1500 and srv = ex_srv, THEN conjunct1] h1 by blast
  have h2: "pta_onoff ex_loc_cookie \<and> \<not> internal ex_request_cookie_odd
      \<and> (pta_auth_method ex_loc_cookie = NGX_IIJPTA_AUTH_COOKIE
         \<or> (pta_auth_method ex_loc_cookie = NGX_IIJPTA_AUTH_QS + NGX_IIJPTA_AUTH_COOKIE
            \<and> args_pta ex_request_cookie_odd = None))
      \<and> ngx_http_pta_parse_cookie_header (cookies ex_request_cookie_odd) QUERY_PARAM
          = [replicate 32 0x61] @ ?odd # [replicate 32 0x63]
      \<and> length ([replicate 32 0x61] @ ?odd # [replicate 32 0x63]) < 65536
      \<and> (\<forall>x \<in> set [replicate 32 0x61].
            advancing (candidate_outcome ex_cipher 1500 ex_srv ex_request_cookie_odd x))
      \<and> length ?odd mod 2 \<noteq> 0"
    using ex_cookie_pairs_odd_parse
    by (simp add: ex_loc_cookie_def ex_request_cookie_odd_def ex_outcomes(1) advancing_def)
  have c2: "\<exists>p. ngx_http_pta_handler ex_cipher 1500 (Some ex_srv) (Some ex_loc_cookie)
            ex_request_cookie_odd = Some (Ret NGX_HTTP_BAD_REQUEST, p)
        \<and> attempts (err_log p) = [replicate 32 0x61]"
    using odd_token_malformed[where loc = ex_loc_cookie and r = ex_request_cookie_odd
        and c = ?odd and D = ex_cipher and now = 1500 and srv = ex_srv
        and pre = "[replicate 32 0x61]" and post = "[replicate 32 0x63]",
        THEN conjunct2, THEN conjunct1] h2 by blast
  have a3: "auth_type ex_state_cookie = NGX_IIJPTA_AUTH_COOKIE"
    by (simp add: ex_state_cookie_def)
  have c3: "fst (ngx_http_pta_build_info ex_request_cookie ex_state_cookie) = 0"
    using odd_token_malformed[where r = ex_request_cookie and D = ex_cipher and srv = ex_srv
        and q = ex_state_cookie and q' = q1,
        THEN conjunct2, THEN conjunct2, THEN conjunct1] a3 q1 by blast
  have c4: "ngx_http_pta_check_deadline 1500 ex_state_expired \<noteq> 0
      \<or> (\<exists>u. fst (ngx_http_pta_check_url ex_request_cookie ex_state_expired) = Ret u \<and> u \<noteq> 0)"
    using odd_token_malformed[where r = ex_request_cookie and now = 1500 and x = "Ret 0"
        and q = ex_state_expired and q' = q2,
        THEN conjunct2, THEN conjunct2, THEN conjunct2] q2 by blast
  have d4: "ngx_http_pta_check_deadline 1500 ex_state_expired \<noteq> 0"
  proof -
    have "decrypt_data ex_state_expired
        = decrypt_data (plain_pta pta_zero (token_plain 1000 (bytes_of ''/*'') 2))"
      by (simp add: ex_state_expired_def plain_pta_def length_token_plain bytes_of_def)
    from check_deadline_depends[OF this, of 1500] show ?thesis
      by (simp add: token_plain_deadline)
  qed
  from c1 ex_cookie_pairs_odd_parse c2 q1 c3 q2 d4 show ?thesis by auto
qed

text \<open>
  Claim C6.  Let a candidate be decoded (\<open>ngx_http_pta_build_info\<close> has taken
  \<open>encrypt_string p0\<close>, an even number of characters and not empty), both key pairs be
  set, and the plaintext \<open>out1\<close> under the primary pair fail the integrity check.  Then
  the pass with the primary pair comes first and goes on to the secondary pair; the
  loop over the key pairs ends as the pass with the secondary pair does, accepted when
  its plaintext \<open>out2\<close> passes the integrity check and exhausted when it does not; and
  when \<open>out2\<close> passes the integrity, deadline and URL checks, the handler lets the
  request through (\<open>NGX_DECLINED\<close>) on the plaintext of the secondary pair.
\<close>

theorem key_rotation:
  assumes bi: "ngx_http_pta_build_info r p = build_info_decode p0"
    and c: "length (encrypt_string p0) mod 2 = 0" "encrypt_string p0 \<noteq> []"
    and k1: "ngx_http_pta_hex2bin (key_1st srv) = Some k1" "ngx_http_pta_hex2bin (iv_1st srv) = Some v1"
    and k2: "ngx_http_pta_hex2bin (key_2nd srv) = Some k2" "ngx_http_pta_hex2bin (iv_2nd srv) = Some v2"
    and o1: "EVP_decrypt D k1 v1 (hex2bin_loop (encrypt_string p0)) = Some out1"
      "ngx_http_pta_check_crc (plain_pta pta_zero out1) = Ret e" "e \<noteq> 0"
    and o2: "EVP_decrypt D k2 v2 (hex2bin_loop (encrypt_string p0)) = Some out2"
  shows "ngx_http_pta_build_info r p = (0, decoded p0)
       \<and> decrypt_key_pass D srv (decoded p0) 0
           = Continue ((decoded p0)\<lparr>decrypt_data := set_decrypt_data out1 (length out1)\<rparr>)
       \<and> (\<forall>a. ngx_http_pta_check_crc (plain_pta pta_zero out2) = Ret a \<longrightarrow>
             decrypt_key_loop D srv (decoded p0) 0
               = (if a = 0
                  then Decrypted ((decoded p0)\<lparr>decrypt_data := set_decrypt_data out2 (length out2)\<rparr>)
                  else Continue ((decoded p0)\<lparr>decrypt_data := set_decrypt_data out2 (length out2)\<rparr>)))
       \<and> (ngx_http_pta_check_crc (plain_pta pta_zero out2) = Ret 0
          \<and> ngx_http_pta_check_deadline now (plain_pta pta_zero out2) = 0
          \<and> fst (ngx_http_pta_check_url r (plain_pta pta_zero out2)) = Ret 0
          \<longrightarrow> (\<exists>p'. handler_more D now srv r p = Some (Ret NGX_DECLINED, p')
                   \<and> decrypt_data p' = set_decrypt_data out2 (length out2)))"
proof -
  let ?c = "encrypt_string p0" and ?q = "decoded p0"
  let ?data = "hex2bin_loop ?c"
  let ?q1 = "?q\<lparr>decrypt_data := set_decrypt_data out1 (length out1)\<rparr>"
  let ?q2 = "?q\<lparr>decrypt_data := set_decrypt_data out2 (length out2)\<rparr>"
  have ne: "?data \<noteq> []" using c by (rule hex2bin_loop_nonempty)
  have b: "ngx_http_pta_build_info r p = (0, ?q)"
    using build_info_decode_ok[OF c] bi by simp
  have q: "encrypt_data_len ?q = length (encrypt_data ?q)" "encrypt_data ?q \<noteq> []"
    "encrypt_data ?q = ?data"
    using ne by (simp_all add: decoded_fields)
  have q1: "encrypt_data_len ?q1 = length (encrypt_data ?q1)" "encrypt_data ?q1 \<noteq> []"
    using q by simp_all
  have kp1: "key_plain D srv ?data 0 = KP_Reject out1"
    using key_plain_1st[OF k1 o1(1) ne] o1(2,3) by simp
  have kp2: "key_plain D srv ?data (Suc 0) =
      (case ngx_http_pta_check_crc (plain_pta pta_zero out2) of
         Fault f \<Rightarrow> KP_Fault f
       | Ret a \<Rightarrow> if a = 0 then KP_Accept out2 else KP_Reject out2)"
    by (rule key_plain_2nd[OF k2 o2 ne])
  have pass1: "decrypt_key_pass D srv ?q 0 = Continue ?q1"
    using key_pass_by_plain(3)[OF q(1,2), of D srv 0 out1] kp1 q(3) by simp
  have loop: "decrypt_key_loop D srv ?q 0 = (if a = 0 then Decrypted ?q2 else Continue ?q2)"
    if a: "ngx_http_pta_check_crc (plain_pta pta_zero out2) = Ret a" for a
  proof (cases "a = 0")
    case True
    then have "key_plain D srv (encrypt_data ?q1) (Suc 0) = KP_Accept out2"
      using kp2 a q(3) by simp
    from key_pass_by_plain(4)[OF q1 this] pass1 True show ?thesis
      by (simp add: decrypt_key_loop_0)
  next
    case False
    then have "key_plain D srv (encrypt_data ?q1) (Suc 0) = KP_Reject out2"
      using kp2 a q(3) by simp
    from key_pass_by_plain(3)[OF q1 this] pass1 False show ?thesis
      by (simp add: decrypt_key_loop_0)
  qed
  have fin: "\<exists>p'. handler_more D now srv r p = Some (Ret NGX_DECLINED, p')
                   \<and> decrypt_data p' = set_decrypt_data out2 (length out2)"
    if ok: "ngx_http_pta_check_crc (plain_pta pta_zero out2) = Ret 0"
      "ngx_http_pta_check_deadline now (plain_pta pta_zero out2) = 0"
      "fst (ngx_http_pta_check_url r (plain_pta pta_zero out2)) = Ret 0"
  proof -
    have ks: "keys_plain D srv ?data = KP_Accept out2"
      using kp1 kp2 ok(1) by (simp add: keys_plain_def)
    have oc: "candidate_outcome D now srv r ?c = Authorized"
      using c ks ok(2,3) by (simp add: candidate_outcome_def)
    from candidate_final[OF bi oc] ks show ?thesis
      by (auto simp add: final_ret_def advancing_def)
  qed
  from b pass1 loop fin show ?thesis by blast
qed

theorem key_rotation_witness:
  "EVP_decrypt ex_cipher (replicate 16 0) (replicate 16 0) (hex2bin_loop (replicate 32 0x63))
     = Some (replicate 16 0)
   \<and> ngx_http_pta_check_crc (plain_pta pta_zero (replicate 16 0)) = Ret 1
   \<and> EVP_decrypt ex_cipher (replicate 16 0x11) (replicate 16 0x11) (hex2bin_loop (replicate 32 0x63))
     = Some (token_plain 2000 (bytes_of ''/*'') 2)
   \<and> (\<exists>p'. ngx_http_pta_handler ex_cipher 1500 (Some ex_srv) (Some ex_loc_qs)
              (ex_request_qs (replicate 32 0x63)) = Some (Ret NGX_DECLINED, p')
          \<and> decrypt_data p' = set_decrypt_data (token_plain 2000 (bytes_of ''/*'') 2) 16)"
proof -
  let ?tok = "replicate 32 (0x63 :: byte)"
  let ?r = "ex_request_qs ?tok"
  let ?p = "ngx_http_pta_init_auth_type ex_loc_qs pta_zero"
  let ?pc = "?p\<lparr>encrypt_data_array := None, encrypt_string := ?tok\<rparr>"
  let ?out2 = "token_plain 2000 (bytes_of ''/*'') 2"
  have r: "args_pta ?r = Some ?tok" "uri ?r = bytes_of ''/a''" "\<not> internal ?r"
    by (simp_all add: ex_request_qs_def)
  have l: "pta_onoff ex_loc_qs" "pta_auth_method ex_loc_qs \<noteq> NGX_IIJPTA_AUTH_COOKIE"
    by (simp_all add: ex_loc_qs_def NGX_IIJPTA_AUTH_QS_def NGX_IIJPTA_AUTH_COOKIE_def)
  have e: "ngx_http_pta_handler ex_cipher 1500 (Some ex_srv) (Some ex_loc_qs) ?r
      = handler_more ex_cipher 1500 ex_srv ?r ?p"
    by (rule handler_enabled[OF l(1) r(3)])
  have bi: "ngx_http_pta_build_info ?r ?p = build_info_decode ?pc"
    by (rule build_info_qs[OF init_auth_type_qs(1)[OF l(2)] r(1)])
  have c: "length (encrypt_string ?pc) mod 2 = 0" "encrypt_string ?pc \<noteq> []" by simp_all
  have o1: "EVP_decrypt ex_cipher (replicate 16 0) (replicate 16 0) (hex2bin_loop (encrypt_string ?pc))
      = Some (replicate 16 0)"
    "ngx_http_pta_check_crc (plain_pta pta_zero (replicate 16 0)) = Ret 1" "(1 :: int) \<noteq> 0"
    by (simp_all add: ex_hex ex_cipher_zero zero_plain_crc)
  have o2: "EVP_decrypt ex_cipher (replicate 16 0x11) (replicate 16 0x11)
      (hex2bin_loop (encrypt_string ?pc)) = Some ?out2"
    by (simp add: ex_hex ex_cipher_token)
  have ok: "ngx_http_pta_check_crc (plain_pta pta_zero ?out2) = Ret 0
          \<and> ngx_http_pta_check_deadline 1500 (plain_pta pta_zero ?out2) = 0
          \<and> fst (ngx_http_pta_check_url ?r (plain_pta pta_zero ?out2)) = Ret 0"
    using ex_check_url(1)[OF r(2), of 2000]
    by (simp add: token_plain_crc token_plain_deadline bytes_of_def)
  have len: "length ?out2 = 16" by (simp add: length_token_plain bytes_of_def)
  from key_rotation[OF bi c ex_keys o1 o2, of 1500] ok
  have "\<exists>p'. handler_more ex_cipher 1500 ex_srv ?r ?p = Some (Ret NGX_DECLINED, p')
                   \<and> decrypt_data p' = set_decrypt_data ?out2 (length ?out2)"
    by blast
  then show ?thesis
    unfolding e len using o1(1,2) o2 by simp
qed

lemma build_info_auth:
  "auth_type (snd (ngx_http_pta_build_info r q)) = auth_type q"
  by (auto simp add: ngx_http_pta_build_info_def ngx_http_pta_set_encrypt_data_array_def
      build_info_decode_def Let_def ngx_log_error_def
      split: option.splits if_splits prod.splits)

lemma build_info_fallback_iff:
  "fst (ngx_http_pta_build_info r q) = NGX_HTTP_PTA_FALLBACK
     \<longleftrightarrow> auth_type q = NGX_IIJPTA_AUTH_QS \<and> need_fallback_cookie q \<and> args_pta r = None"
proof (cases "auth_type q = NGX_IIJPTA_AUTH_COOKIE")
  case True
  then show ?thesis
    using build_info_cookie_not_fallback[OF True, of r]
    by (simp add: NGX_IIJPTA_AUTH_QS_def NGX_IIJPTA_AUTH_COOKIE_def)
next
  case False
  then show ?thesis
    by (auto simp add: ngx_http_pta_build_info_def build_info_decode_def Let_def
        NGX_HTTP_PTA_FALLBACK_def NGX_HTTP_BAD_REQUEST_def NGX_HTTP_INTERNAL_SERVER_ERROR_def
        split: option.splits if_splits)
qed

lemma decrypt_again_fallback:
  assumes "fst (ngx_http_pta_build_info r q) = NGX_HTTP_PTA_FALLBACK"
  shows "\<exists>q'. decrypt_again D srv r q = Goto q' \<and> auth_type q' = NGX_IIJPTA_AUTH_COOKIE
            \<and> \<not> need_fallback_cookie q'"
  using assms by (cases "ngx_http_pta_build_info r q") (simp add: decrypt_again_def)

lemma decrypt_key_pass_auth:
  "decrypt_key_pass D srv q idx = Continue q' \<or> decrypt_key_pass D srv q idx = Decrypted q'
     \<or> decrypt_key_pass D srv q idx = GotoFail q' \<or> decrypt_key_pass D srv q idx = KeyFault f q'
   \<Longrightarrow> auth_type q' = auth_type q"
  by (auto simp add: decrypt_key_pass_def Let_def split: option.splits ret.splits if_splits)

lemma decrypt_key_loop_auth:
  assumes "decrypt_key_loop D srv q 0 = Continue q' \<or> decrypt_key_loop D srv q 0 = Decrypted q'
     \<or> decrypt_key_loop D srv q 0 = GotoFail q' \<or> decrypt_key_loop D srv q 0 = KeyFault f q'"
  shows "auth_type q' = auth_type q"
proof (cases "decrypt_key_pass D srv q 0")
  case (Continue q1)
  then have a1: "auth_type q1 = auth_type q" using decrypt_key_pass_auth[of D srv q 0 q1] by simp
  have "decrypt_key_pass D srv q1 (Suc 0) = Continue q' \<or> decrypt_key_pass D srv q1 (Suc 0) = Decrypted q'
     \<or> decrypt_key_pass D srv q1 (Suc 0) = GotoFail q' \<or> decrypt_key_pass D srv q1 (Suc 0) = KeyFault f q'"
    using assms Continue
    by (cases "decrypt_key_pass D srv q1 (Suc 0)") (simp_all add: decrypt_key_loop_0)
  from decrypt_key_pass_auth[OF this] a1 show ?thesis by simp
next
  case (Decrypted q1)
  then show ?thesis
    using assms decrypt_key_pass_auth[of D srv q 0 q1] by (simp add: decrypt_key_loop_0)
next
  case (GotoFail q1)
  then show ?thesis
    using assms decrypt_key_pass_auth[of D srv q 0 q1] by (simp add: decrypt_key_loop_0)
next
  case (KeyFault g q1)
  then show ?thesis
    using assms decrypt_key_pass_auth[of D srv q 0 q1 g] by (simp add: decrypt_key_loop_0)
qed

lemma decrypt_exhausted_auth:
  "decrypt_exhausted q = Goto q' \<or> decrypt_exhausted q = Return x q' \<Longrightarrow> auth_type q' = auth_type q"
  by (auto simp add: decrypt_exhausted_def Let_def ngx_log_error_def
      split: if_splits option.splits)

text \<open>A pass of \<open>ngx_http_pta_decrypt\<close> that is not the fallback keeps the auth type.\<close>

lemma decrypt_again_auth:
  assumes "decrypt_again D srv r q = Goto q' \<or> decrypt_again D srv r q = Return x q'"
    and "fst (ngx_http_pta_build_info r q) \<noteq> NGX_HTTP_PTA_FALLBACK"
  shows "auth_type q' = auth_type q"
proof -
  obtain ret p1 where b: "ngx_http_pta_build_info r q = (ret, p1)"
    by (cases "ngx_http_pta_build_info r q")
  have a1: "auth_type p1 = auth_type q" using build_info_auth[of r q] b by simp
  have nf: "ret \<noteq> NGX_HTTP_PTA_FALLBACK" using assms(2) b by simp
  show ?thesis
  proof (cases "ret = 0")
    case False
    then show ?thesis using assms(1) nf a1 by (auto simp add: decrypt_again_def b)
  next
    case True
    show ?thesis
    proof (cases "decrypt_key_loop D srv p1 0")
      case (Continue p2)
      then have "auth_type p2 = auth_type p1" using decrypt_key_loop_auth[of D srv p1 p2] by simp
      moreover have "decrypt_exhausted p2 = Goto q' \<or> decrypt_exhausted p2 = Return x q'"
        using assms(1) nf True Continue by (simp add: decrypt_again_def b)
      ultimately show ?thesis using decrypt_exhausted_auth[of p2 q' x] a1 by simp
    next
      case (Decrypted p2)
      then have "auth_type p2 = auth_type p1" using decrypt_key_loop_auth[of D srv p1 p2] by simp
      then show ?thesis
        using assms(1) nf True Decrypted a1 by (auto simp add: decrypt_again_def b)
    next
      case (GotoFail p2)
      then have "auth_type p2 = auth_type p1" using decrypt_key_loop_auth[of D srv p1 p2] by simp
      then show ?thesis
        using assms(1) nf True GotoFail a1
        by (auto simp add: decrypt_again_def b ngx_log_error_def)
    next
      case (KeyFault g p2)
      then have "auth_type p2 = auth_type p1" using decrypt_key_loop_auth[of D srv p1 p2 g] by simp
      then show ?thesis
        using assms(1) nf True KeyFault a1 by (auto simp add: decrypt_again_def b)
    qed
  qed
qed

lemma decrypt_again_cookie:
  assumes "auth_type q = NGX_IIJPTA_AUTH_COOKIE"
    and "decrypt_again D srv r q = Goto q' \<or> decrypt_again D srv r q = Return x q'"
  shows "auth_type q' = NGX_IIJPTA_AUTH_COOKIE"
  using decrypt_again_auth[OF assms(2) build_info_cookie_not_fallback[OF assms(1)]] assms(1)
  by simp

lemma next_candidate_auth:
  "next_candidate code q = Goto q' \<or> next_candidate code q = Return x q' \<Longrightarrow>
     auth_type q' = auth_type q"
  by (auto simp add: next_candidate_def Let_def ngx_log_error_def split: if_splits option.splits)

lemma handler_checks_auth:
  assumes "handler_checks now r x q = Goto q' \<or> handler_checks now r x q = Return y q'"
  shows "auth_type q' = auth_type q"
proof (cases x)
  case (Fault f)
  then show ?thesis using assms by (auto simp add: handler_checks_def)
next
  case (Ret c)
  show ?thesis
  proof (cases "c \<noteq> 0")
    case True
    then show ?thesis using assms Ret by (auto simp add: handler_checks_def)
  next
    case z: False
    show ?thesis
    proof (cases "ngx_http_pta_check_deadline now q \<noteq> 0")
      case True
      then have "next_candidate 410 (ngx_log_error RequestExpired q) = Goto q'
          \<or> next_candidate 410 (ngx_log_error RequestExpired q) = Return y q'"
        using assms Ret z by (simp add: handler_checks_def)
      from next_candidate_auth[OF this] show ?thesis by (simp add: ngx_log_error_def)
    next
      case False
      obtain u msgs where u: "ngx_http_pta_check_url r q = (u, msgs)"
        by (cases "ngx_http_pta_check_url r q")
      show ?thesis
      proof (cases u)
        case (Fault f)
        then show ?thesis using assms Ret z False u by (auto simp add: handler_checks_def)
      next
        case (Ret v)
        show ?thesis
        proof (cases "v \<noteq> 0")
          case True
          let ?q1 = "ngx_log_error UrlInvalid (q\<lparr>err_log := err_log q @ msgs\<rparr>)"
          have "next_candidate 403 ?q1 = Goto q' \<or> next_candidate 403 ?q1 = Return y q'"
            using assms \<open>x = Ret c\<close> z False u Ret True by (simp add: handler_checks_def)
          from next_candidate_auth[OF this] show ?thesis by (simp add: ngx_log_error_def)
        next
          case v0: False
          then show ?thesis
            using assms \<open>x = Ret c\<close> z False u Ret
            by (auto simp add: handler_checks_def ngx_log_error_def)
        qed
      qed
    qed
  qed
qed

lemma handler_checks_Goto_cookie:
  assumes "handler_checks now r x q = Goto q'"
  shows "auth_type q = NGX_IIJPTA_AUTH_COOKIE"
  using assms
  by (auto simp add: handler_checks_def next_candidate_def Let_def ngx_log_error_def
      split: ret.splits if_splits prod.splits option.splits)

text \<open>Cookie mode is never left: \<open>ngx_http_pta_decrypt\<close> and the handler return in it.\<close>

lemma decrypt_stays_cookie:
  assumes "ngx_http_pta_decrypt D srv r q = Some y" "auth_type q = NGX_IIJPTA_AUTH_COOKIE"
  shows "auth_type (snd y) = NGX_IIJPTA_AUTH_COOKIE"
proof -
  have "auth_type q = NGX_IIJPTA_AUTH_COOKIE \<longrightarrow> auth_type (snd y) = NGX_IIJPTA_AUTH_COOKIE"
  proof (rule ngx_http_pta_decrypt.raw_induct[where P = "\<lambda>D srv r q y.
      auth_type q = NGX_IIJPTA_AUTH_COOKIE \<longrightarrow> auth_type (snd y) = NGX_IIJPTA_AUTH_COOKIE",
      OF _ assms(1)])
    fix dec :: "cipher \<Rightarrow> ngx_http_pta_srv_conf_t \<Rightarrow> ngx_http_request_t \<Rightarrow> ngx_http_pta_info_t
        \<Rightarrow> (ret \<times> ngx_http_pta_info_t) option"
    fix D srv r q y
    assume IH: "\<And>D srv r q y. dec D srv r q = Some y \<Longrightarrow>
        auth_type q = NGX_IIJPTA_AUTH_COOKIE \<longrightarrow> auth_type (snd y) = NGX_IIJPTA_AUTH_COOKIE"
      and eq: "(case decrypt_again D srv r q of
               Return x pta1 \<Rightarrow> Some (x, pta1)
             | Goto pta1 \<Rightarrow> dec D srv r pta1) = Some y"
    show "auth_type q = NGX_IIJPTA_AUTH_COOKIE \<longrightarrow> auth_type (snd y) = NGX_IIJPTA_AUTH_COOKIE"
    proof
      assume c: "auth_type q = NGX_IIJPTA_AUTH_COOKIE"
      show "auth_type (snd y) = NGX_IIJPTA_AUTH_COOKIE"
      proof (cases "decrypt_again D srv r q")
        case (Return z q1)
        with eq have "snd y = q1" by auto
        with decrypt_again_cookie[OF c, of D srv r q1 z] Return show ?thesis by simp
      next
        case (Goto q1)
        have c1: "auth_type q1 = NGX_IIJPTA_AUTH_COOKIE"
          using decrypt_again_cookie[OF c, of D srv r q1] Goto by simp
        from eq Goto have "dec D srv r q1 = Some y" by simp
        from IH[OF this] c1 show ?thesis by simp
      qed
    qed
  qed
  with assms(2) show ?thesis by simp
qed

lemma handler_stays_cookie:
  assumes "handler_more D now srv r q = Some y" "auth_type q = NGX_IIJPTA_AUTH_COOKIE"
  shows "auth_type (snd y) = NGX_IIJPTA_AUTH_COOKIE"
proof -
  have "auth_type q = NGX_IIJPTA_AUTH_COOKIE \<longrightarrow> auth_type (snd y) = NGX_IIJPTA_AUTH_COOKIE"
  proof (rule handler_more.raw_induct[where P = "\<lambda>D now srv r q y.
      auth_type q = NGX_IIJPTA_AUTH_COOKIE \<longrightarrow> auth_type (snd y) = NGX_IIJPTA_AUTH_COOKIE",
      OF _ assms(1)])
    fix hm :: "cipher \<Rightarrow> 64 word \<Rightarrow> ngx_http_pta_srv_conf_t \<Rightarrow> ngx_http_request_t
        \<Rightarrow> ngx_http_pta_info_t \<Rightarrow> (ret \<times> ngx_http_pta_info_t) option"
    fix D now srv r q y
    assume IH: "\<And>D now srv r q y. hm D now srv r q = Some y \<Longrightarrow>
        auth_type q = NGX_IIJPTA_AUTH_COOKIE \<longrightarrow> auth_type (snd y) = NGX_IIJPTA_AUTH_COOKIE"
      and eq: "(case ngx_http_pta_decrypt D srv r q of
               None \<Rightarrow> None
             | Some (ret, pta1) \<Rightarrow>
                 (case handler_checks now r ret pta1 of
                    Return x pta2 \<Rightarrow> Some (x, pta2)
                  | Goto pta2 \<Rightarrow> hm D now srv r pta2)) = Some y"
    show "auth_type q = NGX_IIJPTA_AUTH_COOKIE \<longrightarrow> auth_type (snd y) = NGX_IIJPTA_AUTH_COOKIE"
    proof
      assume c: "auth_type q = NGX_IIJPTA_AUTH_COOKIE"
      from eq obtain z q1 where d: "ngx_http_pta_decrypt D srv r q = Some (z, q1)"
        by (cases "ngx_http_pta_decrypt D srv r q") auto
      have c1: "auth_type q1 = NGX_IIJPTA_AUTH_COOKIE"
        using decrypt_stays_cookie[OF d c] by simp
      show "auth_type (snd y) = NGX_IIJPTA_AUTH_COOKIE"
      proof (cases "handler_checks now r z q1")
        case (Return w q2)
        with eq d have "snd y = q2" by auto
        with handler_checks_auth[of now r z q1 q2 w] Return c1 show ?thesis by simp
      next
        case (Goto q2)
        have c2: "auth_type q2 = NGX_IIJPTA_AUTH_COOKIE"
          using handler_checks_auth[of now r z q1 q2] Goto c1 by simp
        from eq d Goto have "hm D now srv r q2 = Some y" by simp
        from IH[OF this] c2 show ?thesis by simp
      qed
    qed
  qed
  with assms(2) show ?thesis by simp
qed

lemma handler_fallback_is_cookie:
  assumes "pta_auth_method loc = NGX_IIJPTA_AUTH_QS + NGX_IIJPTA_AUTH_COOKIE" "args_pta r = None"
  shows "ngx_http_pta_handler D now (Some srv) (Some loc) r
           = ngx_http_pta_handler D now (Some srv)
               (Some (loc\<lparr>pta_auth_method := NGX_IIJPTA_AUTH_COOKIE\<rparr>)) r"
proof (cases "pta_onoff loc \<and> \<not> internal r")
  case False
  then show ?thesis by (auto simp add: ngx_http_pta_handler_def)
next
  case True
  let ?q = "pta_zero\<lparr>need_fallback_cookie := True, auth_type := NGX_IIJPTA_AUTH_QS\<rparr>"
  let ?lc = "loc\<lparr>pta_auth_method := NGX_IIJPTA_AUTH_COOKIE\<rparr>"
  have "ngx_http_pta_handler D now (Some srv) (Some loc) r = handler_more D now srv r ?q"
    using True init_auth_type_both[OF assms(1)] by (simp add: ngx_http_pta_handler_def)
  also have "\<dots> = handler_more D now srv r
      (?q\<lparr>encrypt_data_array := None, need_fallback_cookie := False,
          auth_type := NGX_IIJPTA_AUTH_COOKIE\<rparr>)"
    by (rule handler_more_fallback) (simp_all add: assms(2))
  also have "?q\<lparr>encrypt_data_array := None, need_fallback_cookie := False,
          auth_type := NGX_IIJPTA_AUTH_COOKIE\<rparr> = pta_zero\<lparr>auth_type := NGX_IIJPTA_AUTH_COOKIE\<rparr>"
    by (simp add: pta_zero_def)
  also have "handler_more D now srv r (pta_zero\<lparr>auth_type := NGX_IIJPTA_AUTH_COOKIE\<rparr>)
      = ngx_http_pta_handler D now (Some srv) (Some ?lc) r"
    using True init_auth_type_cookie[of ?lc] by (simp add: ngx_http_pta_handler_def)
  finally show ?thesis .
qed

lemma ex_cookie_run:
  "\<exists>p. handler_more ex_cipher 1500 ex_srv ex_request_cookie
          (pta_zero\<lparr>auth_type := NGX_IIJPTA_AUTH_COOKIE\<rparr>) = Some (Ret NGX_DECLINED, p)"
proof -
  let ?r = ex_request_cookie
  let ?p = "pta_zero\<lparr>auth_type := NGX_IIJPTA_AUTH_COOKIE\<rparr>"
  let ?f = "candidate_outcome ex_cipher 1500 ex_srv ?r"
  have u: "uri ?r = bytes_of ''/a''" "uri_after ?r = 0x20 # bytes_of ''HTTP/1.1''"
    "cookies ?r = map cookie_header ex_cookie_pairs"
    by (simp_all add: ex_request_cookie_def bytes_of_def)
  note oc = ex_outcomes(1)[of ?r] ex_outcomes(3)[OF u(1,2)] ex_outcomes(4)[OF u(1)]
  have parse: "ngx_http_pta_parse_cookie_header (cookies ?r) QUERY_PARAM
      = [replicate 32 0x61, replicate 32 0x62] @ replicate 32 0x63 # []"
    using parse_cookie_headers[OF ex_cookie_pairs_ok] by (simp add: u(3) ex_pta_values)
  have adv: "\<forall>x \<in> set [replicate 32 0x61, replicate 32 0x62]. advancing (?f x)"
    by (simp add: oc advancing_def)
  have fin: "\<not> advancing (?f (replicate 32 0x63)) \<or> ([] :: byte list list) = []" by simp
  have p: "auth_type ?p = NGX_IIJPTA_AUTH_COOKIE" "encrypt_data_array ?p = None"
    "encrypt_data_array_idx ?p = 0"
    by (simp_all add: pta_zero_def)
  from handler_more_cookie_first[OF p parse, of ex_cipher 1500 ex_srv]
  have "\<exists>p'. handler_more ex_cipher 1500 ex_srv ?r ?p = Some (Ret NGX_DECLINED, p')
      \<and> attempts (err_log p') = attempts (err_log ?p)
          @ [replicate 32 0x61, replicate 32 0x62, replicate 32 0x63]"
    unfolding candidates_result_split[OF adv fin] by (simp add: oc final_ret_def)
  then show ?thesis by blast
qed

text \<open>
  Claim C7.  With both methods enabled the handler starts in query-string mode with
  the fallback flag set.  \<open>ngx_http_pta_build_info\<close> asks for the fallback exactly in
  query-string mode with the flag set and no \<open>pta\<close> argument in the request, and
  \<open>ngx_http_pta_decrypt\<close> then goes on in cookie mode with the flag cleared.  No other
  step changes the auth type: a pass of \<open>ngx_http_pta_decrypt\<close> that is not the
  fallback keeps it, the checks of the handler keep it, and a handler that is in cookie
  mode returns in cookie mode; so the switch is made at most once and query-string
  mode is not entered again.  On the handler: with a \<open>pta\<close> argument, whatever it is
  worth, the request is decided in query-string mode on that one token and the cookies
  are not parsed; without one the handler does what it does with the cookie method alone.
\<close>

theorem fallback_once:
  "(pta_auth_method loc = NGX_IIJPTA_AUTH_QS + NGX_IIJPTA_AUTH_COOKIE
    \<longrightarrow> auth_type (ngx_http_pta_init_auth_type loc pta_zero) = NGX_IIJPTA_AUTH_QS
        \<and> need_fallback_cookie (ngx_http_pta_init_auth_type loc pta_zero))
   \<and> ((fst (ngx_http_pta_build_info r q) = NGX_HTTP_PTA_FALLBACK)
        = (auth_type q = NGX_IIJPTA_AUTH_QS \<and> need_fallback_cookie q \<and> args_pta r = None))
   \<and> (fst (ngx_http_pta_build_info r q) = NGX_HTTP_PTA_FALLBACK
    \<longrightarrow> (\<exists>q'. decrypt_again D srv r q = Goto q' \<and> auth_type q' = NGX_IIJPTA_AUTH_COOKIE
              \<and> \<not> need_fallback_cookie q'))
   \<and> (fst (ngx_http_pta_build_info r q) \<noteq> NGX_HTTP_PTA_FALLBACK
      \<and> (decrypt_again D srv r q = Goto q' \<or> decrypt_again D srv r q = Return x q')
    \<longrightarrow> auth_type q' = auth_type q)
   \<and> (handler_checks now r x q = Goto q' \<or> handler_checks now r x q = Return x' q'
    \<longrightarrow> auth_type q' = auth_type q)
   \<and> (auth_type q = NGX_IIJPTA_AUTH_COOKIE \<and> handler_more D now srv r q = Some (x, q')
    \<longrightarrow> auth_type q' = NGX_IIJPTA_AUTH_COOKIE)
   \<and> (pta_onoff loc \<and> \<not> internal r
      \<and> pta_auth_method loc = NGX_IIJPTA_AUTH_QS + NGX_IIJPTA_AUTH_COOKIE \<and> args_pta r = Some v
    \<longrightarrow> (\<exists>p. ngx_http_pta_handler D now (Some srv) (Some loc) r
                 = Some (final_ret (candidate_outcome D now srv r v), p)
             \<and> auth_type p = NGX_IIJPTA_AUTH_QS \<and> encrypt_data_array p = None
             \<and> attempts (err_log p)
                 = (if candidate_outcome D now srv r v = Malformed then [] else [v])))
   \<and> (pta_auth_method loc = NGX_IIJPTA_AUTH_QS + NGX_IIJPTA_AUTH_COOKIE \<and> args_pta r = None
    \<longrightarrow> ngx_http_pta_handler D now (Some srv) (Some loc) r
          = ngx_http_pta_handler D now (Some srv)
              (Some (loc\<lparr>pta_auth_method := NGX_IIJPTA_AUTH_COOKIE\<rparr>)) r)"
proof (intro conjI impI)
  assume "pta_auth_method loc = NGX_IIJPTA_AUTH_QS + NGX_IIJPTA_AUTH_COOKIE"
  then show "auth_type (ngx_http_pta_init_auth_type loc pta_zero) = NGX_IIJPTA_AUTH_QS"
    and "need_fallback_cookie (ngx_http_pta_init_auth_type loc pta_zero)"
    by (simp_all add: init_auth_type_both)
next
  show "(fst (ngx_http_pta_build_info r q) = NGX_HTTP_PTA_FALLBACK)
        = (auth_type q = NGX_IIJPTA_AUTH_QS \<and> need_fallback_cookie q \<and> args_pta r = None)"
    by (rule build_info_fallback_iff)
next
  assume "fst (ngx_http_pta_build_info r q) = NGX_HTTP_PTA_FALLBACK"
  then show "\<exists>q'. decrypt_again D srv r q = Goto q' \<and> auth_type q' = NGX_IIJPTA_AUTH_COOKIE
              \<and> \<not> need_fallback_cookie q'"
    by (rule decrypt_again_fallback)
next
  assume "fst (ngx_http_pta_build_info r q) \<noteq> NGX_HTTP_PTA_FALLBACK
      \<and> (decrypt_again D srv r q = Goto q' \<or> decrypt_again D srv r q = Return x q')"
  then show "auth_type q' = auth_type q"
    using decrypt_again_auth[of D srv r q q' x] by blast
next
  assume "handler_checks now r x q = Goto q' \<or> handler_checks now r x q = Return x' q'"
  then show "auth_type q' = auth_type q" by (rule handler_checks_auth)
next
  assume "auth_type q = NGX_IIJPTA_AUTH_COOKIE \<and> handler_more D now srv r q = Some (x, q')"
  then show "auth_type q' = NGX_IIJPTA_AUTH_COOKIE"
    using handler_stays_cookie[of D now srv r q "(x, q')"] by simp
next
  assume h: "pta_onoff loc \<and> \<not> internal r
      \<and> pta_auth_method loc = NGX_IIJPTA_AUTH_QS + NGX_IIJPTA_AUTH_COOKIE \<and> args_pta r = Some v"
  let ?p = "ngx_http_pta_init_auth_type loc pta_zero"
  have e: "ngx_http_pta_handler D now (Some srv) (Some loc) r = handler_more D now srv r ?p"
    using h by (intro handler_enabled) simp_all
  have nc: "pta_auth_method loc \<noteq> NGX_IIJPTA_AUTH_COOKIE"
    using h by (simp add: NGX_IIJPTA_AUTH_QS_def NGX_IIJPTA_AUTH_COOKIE_def)
  have a: "args_pta r = Some v" using h by simp
  from handler_more_qs[OF init_auth_type_qs(1)[OF nc] a, of D now srv]
  show "\<exists>p. ngx_http_pta_handler D now (Some srv) (Some loc) r
                 = Some (final_ret (candidate_outcome D now srv r v), p)
             \<and> auth_type p = NGX_IIJPTA_AUTH_QS \<and> encrypt_data_array p = None
             \<and> attempts (err_log p)
                 = (if candidate_outcome D now srv r v = Malformed then [] else [v])"
    unfolding e by (simp add: init_auth_type_qs(2)[OF nc])
next
  assume "pta_auth_method loc = NGX_IIJPTA_AUTH_QS + NGX_IIJPTA_AUTH_COOKIE \<and> args_pta r = None"
  then show "ngx_http_pta_handler D now (Some srv) (Some loc) r
          = ngx_http_pta_handler D now (Some srv)
              (Some (loc\<lparr>pta_auth_method := NGX_IIJPTA_AUTH_COOKIE\<rparr>)) r"
    by (intro handler_fallback_is_cookie) simp_all
qed

theorem fallback_once_witness:
  "auth_type (ngx_http_pta_init_auth_type ex_loc_both pta_zero) = NGX_IIJPTA_AUTH_QS
   \<and> need_fallback_cookie (ngx_http_pta_init_auth_type ex_loc_both pta_zero)
   \<and> fst (ngx_http_pta_build_info ex_request_cookie
             (ngx_http_pta_init_auth_type ex_loc_both pta_zero)) = NGX_HTTP_PTA_FALLBACK
   \<and> (\<exists>q'. decrypt_again ex_cipher ex_srv ex_request_cookie
               (ngx_http_pta_init_auth_type ex_loc_both pta_zero) = Goto q'
          \<and> auth_type q' = NGX_IIJPTA_AUTH_COOKIE \<and> \<not> need_fallback_cookie q')
   \<and> (\<exists>q'. decrypt_again ex_cipher ex_srv ex_request_cookie ex_state_cookie = Goto q'
          \<and> auth_type q' = NGX_IIJPTA_AUTH_COOKIE)
   \<and> (\<exists>q'. handler_checks 1500 ex_request_cookie (Ret 0) ex_state_expired = Goto q'
          \<and> auth_type q' = NGX_IIJPTA_AUTH_COOKIE)
   \<and> (\<exists>p. handler_more ex_cipher 1500 ex_srv ex_request_cookie
              (pta_zero\<lparr>auth_type := NGX_IIJPTA_AUTH_COOKIE\<rparr>) = Some (Ret NGX_DECLINED, p)
          \<and> auth_type p = NGX_IIJPTA_AUTH_COOKIE)
   \<and> (\<exists>p. ngx_http_pta_handler ex_cipher 1500 (Some ex_srv) (Some ex_loc_both) ex_request_both
              = Some (Ret 403, p)
          \<and> auth_type p = NGX_IIJPTA_AUTH_QS \<and> encrypt_data_array p = None
          \<and> attempts (err_log p) = [replicate 32 0x61])
   \<and> ngx_http_pta_handler ex_cipher 1500 (Some ex_srv) (Some ex_loc_both) ex_request_cookie
       = ngx_http_pta_handler ex_cipher 1500 (Some ex_srv)
           (Some (ex_loc_both\<lparr>pta_auth_method := NGX_IIJPTA_AUTH_COOKIE\<rparr>)) ex_request_cookie"
proof -
  let ?i = "ngx_http_pta_init_auth_type ex_loc_both pta_zero"
  let ?pc = "pta_zero\<lparr>auth_type := NGX_IIJPTA_AUTH_COOKIE\<rparr>"
  have m: "pta_auth_method ex_loc_both = NGX_IIJPTA_AUTH_QS + NGX_IIJPTA_AUTH_COOKIE"
    "pta_onoff ex_loc_both"
    by (simp_all add: ex_loc_both_def)
  have rc: "args_pta ex_request_cookie = None" by (simp add: ex_request_cookie_def)
  have rb: "args_pta ex_request_both = Some (replicate 32 0x61)" "\<not> internal ex_request_both"
    by (simp_all add: ex_request_both_def)
  have c1: "auth_type ?i = NGX_IIJPTA_AUTH_QS \<and> need_fallback_cookie ?i"
    using fallback_once[where loc = ex_loc_both, THEN conjunct1] m(1) by blast
  have c2: "fst (ngx_http_pta_build_info ex_request_cookie ?i) = NGX_HTTP_PTA_FALLBACK"
    using fallback_once[where r = ex_request_cookie and q = ?i, THEN conjunct2, THEN conjunct1]
      c1 rc by blast
  have c3: "\<exists>q'. decrypt_again ex_cipher ex_srv ex_request_cookie ?i = Goto q'
          \<and> auth_type q' = NGX_IIJPTA_AUTH_COOKIE \<and> \<not> need_fallback_cookie q'"
    using fallback_once[where r = ex_request_cookie and q = ?i and D = ex_cipher and srv = ex_srv,
        THEN conjunct2, THEN conjunct2, THEN conjunct1] c2 by blast
  obtain q1 where q1: "decrypt_again ex_cipher ex_srv ex_request_cookie ex_state_cookie = Goto q1"
    using ex_state_cookie_again by blast
  have a4: "auth_type ex_state_cookie = NGX_IIJPTA_AUTH_COOKIE"
    "auth_type ex_state_expired = NGX_IIJPTA_AUTH_COOKIE"
    by (simp_all add: ex_state_cookie_def ex_state_expired_def)
  have nq: "NGX_IIJPTA_AUTH_COOKIE \<noteq> NGX_IIJPTA_AUTH_QS"
    by (simp add: NGX_IIJPTA_AUTH_QS_def NGX_IIJPTA_AUTH_COOKIE_def)
  have n4: "fst (ngx_http_pta_build_info ex_request_cookie ex_state_cookie) \<noteq> NGX_HTTP_PTA_FALLBACK"
    using fallback_once[where r = ex_request_cookie and q = ex_state_cookie,
        THEN conjunct2, THEN conjunct1] a4(1) nq by simp
  have c4: "auth_type q1 = NGX_IIJPTA_AUTH_COOKIE"
    using fallback_once[where r = ex_request_cookie and q = ex_state_cookie and D = ex_cipher
        and srv = ex_srv and q' = q1,
        THEN conjunct2, THEN conjunct2, THEN conjunct2, THEN conjunct1] n4 q1 a4(1) by simp
  obtain q2 where q2: "handler_checks 1500 ex_request_cookie (Ret 0) ex_state_expired = Goto q2"
    using ex_state_expired_more by blast
  have c5: "auth_type q2 = NGX_IIJPTA_AUTH_COOKIE"
    using fallback_once[where r = ex_request_cookie and q = ex_state_expired and now = 1500
        and x = "Ret 0" and q' = q2,
        THEN conjunct2, THEN conjunct2, THEN conjunct2, THEN conjunct2, THEN conjunct1] q2 a4(2)
    by simp
  obtain p6 where p6: "handler_more ex_cipher 1500 ex_srv ex_request_cookie ?pc
      = Some (Ret NGX_DECLINED, p6)"
    using ex_cookie_run by blast
  have c6: "auth_type p6 = NGX_IIJPTA_AUTH_COOKIE"
    using fallback_once[where r = ex_request_cookie and q = ?pc and now = 1500 and D = ex_cipher
        and srv = ex_srv and x = "Ret NGX_DECLINED" and q' = p6,
        THEN conjunct2, THEN conjunct2, THEN conjunct2, THEN conjunct2, THEN conjunct2,
        THEN conjunct1] p6 by simp
  have c7: "\<exists>p. ngx_http_pta_handler ex_cipher 1500 (Some ex_srv) (Some ex_loc_both) ex_request_both
              = Some (Ret 403, p)
          \<and> auth_type p = NGX_IIJPTA_AUTH_QS \<and> encrypt_data_array p = None
          \<and> attempts (err_log p) = [replicate 32 0x61]"
    using fallback_once[where loc = ex_loc_both and r = ex_request_both and now = 1500
        and D = ex_cipher and srv = ex_srv and v = "replicate 32 0x61",
        THEN conjunct2, THEN conjunct2, THEN conjunct2, THEN conjunct2, THEN conjunct2,
        THEN conjunct2, THEN conjunct1] m rb
    by (simp add: ex_outcomes(1) final_ret_def)
  have c8: "ngx_http_pta_handler ex_cipher 1500 (Some ex_srv) (Some ex_loc_both) ex_request_cookie
       = ngx_http_pta_handler ex_cipher 1500 (Some ex_srv)
           (Some (ex_loc_both\<lparr>pta_auth_method := NGX_IIJPTA_AUTH_COOKIE\<rparr>)) ex_request_cookie"
    using fallback_once[where loc = ex_loc_both and r = ex_request_cookie and now = 1500
        and D = ex_cipher and srv = ex_srv,
        THEN conjunct2, THEN conjunct2, THEN conjunct2, THEN conjunct2, THEN conjunct2,
        THEN conjunct2, THEN conjunct2] m(1) rc by blast
  from c1 c2 c3 q1 c4 q2 c5 p6 c6 c7 c8 show ?thesis by blast
qed

end
